theory Spec2Isabelle
  imports Main
begin

section \<open>Python values\<close>

text \<open>
  The program is \<open>flomo2notion.py\<close>: it pulls the memos of a source service page by
  page, indexes the records of a destination database by their slug, and creates,
  updates or skips a record for every memo.

  The memos and the destination records are JSON-shaped Python values. Strings are
  byte lists (UTF-8); a dict is an association list read with \<open>map_of\<close>. Floats are
  left out: no operation of the program below computes with one.
\<close>

datatype pyval =
    PNone
  | PBool bool
  | PInt int
  | PStr string
  | PList "pyval list"
  | PDict "(string \<times> pyval) list"

type_synonym dict = "(string \<times> pyval) list"

datatype error = TypeError | KeyError | ValueError | IndexError

text \<open>Truth value of a Python object, as \<open>not x\<close>, \<open>x or y\<close> and \<open>if x\<close> read it.\<close>

fun truthy :: "pyval \<Rightarrow> bool" where
  "truthy PNone = False"
| "truthy (PBool b) = b"
| "truthy (PInt i) = (i \<noteq> 0)"
| "truthy (PStr s) = (s \<noteq> [])"
| "truthy (PList xs) = (xs \<noteq> [])"
| "truthy (PDict d) = (d \<noteq> [])"

text \<open>\<open>d.get(k)\<close> and \<open>d.get(k, default)\<close>.\<close>

definition dict_get :: "dict \<Rightarrow> string \<Rightarrow> pyval" where
  "dict_get d k = (case map_of d k of None \<Rightarrow> PNone | Some v \<Rightarrow> v)"

definition dict_get_default :: "dict \<Rightarrow> string \<Rightarrow> pyval \<Rightarrow> pyval" where
  "dict_get_default d k dflt = (case map_of d k of None \<Rightarrow> dflt | Some v \<Rightarrow> v)"

text \<open>\<open>x or y\<close>.\<close>

definition py_or :: "pyval \<Rightarrow> pyval \<Rightarrow> pyval" where
  "py_or x y = (if truthy x then x else y)"

text \<open>
  \<open>for f in files\<close>: a list yields its elements, a string its characters, a dict its
  keys; the other values are not iterable.
\<close>

fun py_iter :: "pyval \<Rightarrow> error + pyval list" where
  "py_iter (PList xs) = Inr xs"
| "py_iter (PStr s) = Inr (map (\<lambda>c. PStr [c]) s)"
| "py_iter (PDict d) = Inr (map (\<lambda>kv. PStr (fst kv)) d)"
| "py_iter PNone = Inl TypeError"
| "py_iter (PBool b) = Inl TypeError"
| "py_iter (PInt i) = Inl TypeError"

text \<open>\<open>sep.join(xs)\<close>: every item must be a string.\<close>

fun str_join :: "string \<Rightarrow> pyval list \<Rightarrow> error + string" where
  "str_join sep [] = Inr []"
| "str_join sep [PStr s] = Inr s"
| "str_join sep (PStr s # x # xs) =
     (case str_join sep (x # xs) of Inl e \<Rightarrow> Inl e | Inr r \<Rightarrow> Inr (s @ sep @ r))"
| "str_join sep (v # xs) = Inl TypeError"

section \<open>External collaborators\<close>

text \<open>
  The run talks to the source service, the destination workspace, the process
  environment and two conversion libraries. Every call that leaves the program is an
  event of a log; the answer of a collaborator is a function of the log up to and
  including the call, so that a collaborator may answer from everything that happened
  before (a created record shows up in a later query).
\<close>

text \<open>
  A property value is the call of the \<open>notion_utils\<close> constructor that builds it,
  kept symbolic.
\<close>

datatype notion_prop =
    get_title string
  | get_multi_select pyval
  | get_select pyval
  | get_rich_text pyval
  | get_date pyval
  | get_number pyval

type_synonym properties = "(string \<times> notion_prop) list"

datatype event =
    Get_memo_list "string option" string
  | Query_all pyval
  | Pages_create pyval string string properties
  | Pages_update pyval properties
  | Clear_page_content pyval
  | Upload_single_file_content string pyval

record env =
  get_memo_list :: "event list \<Rightarrow> dict list"
  query_all :: "event list \<Rightarrow> dict list"
  pages_create :: "event list \<Rightarrow> dict"
  pages_update :: "event list \<Rightarrow> dict"
  page_id :: pyval
  get_rich_text_from_result :: "dict \<Rightarrow> string \<Rightarrow> string option"
  cover :: "string list"
  random_index :: "event list \<Rightarrow> nat"
  markdownify :: "pyval \<Rightarrow> error + string"
  html2text :: "pyval \<Rightarrow> error + string"
  truncate_string :: "string \<Rightarrow> string"
  is_within_n_days :: "pyval \<Rightarrow> int \<Rightarrow> bool"
  mktime_strptime :: "string \<Rightarrow> int option"
  getenv :: "string \<Rightarrow> string option"
  strip :: "string \<Rightarrow> string"
  lower :: "string \<Rightarrow> string"
  int_of_str :: "string \<Rightarrow> int option"

section \<open>Content normalizer\<close>

text \<open>The test of the comprehension in \<open>_safe_md_and_text\<close>.\<close>

fun is_image_file :: "pyval \<Rightarrow> bool" where
  "is_image_file (PDict f) = (dict_get f ''type'' = PStr ''image'' \<and> truthy (dict_get f ''url''))"
| "is_image_file v = False"

fun file_url :: "pyval \<Rightarrow> pyval" where
  "file_url (PDict f) = dict_get f ''url''"
| "file_url v = PNone"

definition safe_md_and_text :: "env \<Rightarrow> dict \<Rightarrow> error + (string \<times> string)" where
  "safe_md_and_text e memo =
     (let content_html = dict_get memo ''content'' in
      if \<not> truthy content_html then
        (case py_iter (py_or (dict_get memo ''files'') (PList [])) of
           Inl err \<Rightarrow> Inl err
         | Inr files \<Rightarrow>
             (let img_urls = map file_url (filter is_image_file files) in
              if img_urls \<noteq> [] then
                (case str_join [CHR 0x0A] img_urls of
                   Inl err \<Rightarrow> Inl err
                 | Inr content_md \<Rightarrow> Inr (content_md, content_md))
              else Inr ([], [])))
      else
        (case markdownify e content_html of
           Inl err \<Rightarrow> Inl err
         | Inr content_md \<Rightarrow>
             (case html2text e content_html of
                Inl err \<Rightarrow> Inl err
              | Inr content_text \<Rightarrow> Inr (content_md, content_text))))"

section \<open>Creating and updating a destination record\<close>

text \<open>
  The names of the destination's columns and the two values of the pin column are
  Chinese words in the source; they are given here by their UTF-8 bytes.
\<close>

definition key_title :: string where
  "key_title = [CHR 0xE6, CHR 0xA0, CHR 0x87, CHR 0xE9, CHR 0xA2, CHR 0x98]"

definition key_tags :: string where
  "key_tags = [CHR 0xE6, CHR 0xA0, CHR 0x87, CHR 0xE7, CHR 0xAD, CHR 0xBE]"

definition key_pin :: string where
  "key_pin = [CHR 0xE6, CHR 0x98, CHR 0xAF, CHR 0xE5, CHR 0x90, CHR 0xA6,
              CHR 0xE7, CHR 0xBD, CHR 0xAE, CHR 0xE9, CHR 0xA1, CHR 0xB6]"

definition key_created :: string where
  "key_created = [CHR 0xE5, CHR 0x88, CHR 0x9B, CHR 0xE5, CHR 0xBB, CHR 0xBA,
                  CHR 0xE6, CHR 0x97, CHR 0xB6, CHR 0xE9, CHR 0x97, CHR 0xB4]"

definition key_updated :: string where
  "key_updated = [CHR 0xE6, CHR 0x9B, CHR 0xB4, CHR 0xE6, CHR 0x96, CHR 0xB0,
                  CHR 0xE6, CHR 0x97, CHR 0xB6, CHR 0xE9, CHR 0x97, CHR 0xB4]"

definition key_source :: string where
  "key_source = [CHR 0xE6, CHR 0x9D, CHR 0xA5, CHR 0xE6, CHR 0xBA, CHR 0x90]"

definition key_linked_count :: string where
  "key_linked_count = [CHR 0xE9, CHR 0x93, CHR 0xBE, CHR 0xE6, CHR 0x8E, CHR 0xA5,
                       CHR 0xE6, CHR 0x95, CHR 0xB0, CHR 0xE9, CHR 0x87, CHR 0x8F]"

definition str_no :: string where
  "str_no = [CHR 0xE5, CHR 0x90, CHR 0xA6]"

definition str_yes :: string where
  "str_yes = [CHR 0xE6, CHR 0x98, CHR 0xAF]"

definition icon_url :: string where
  "icon_url = ''https://www.notion.so/icons/target_red.svg''"

text \<open>\<open>v == 0\<close>: true of the integer zero and of \<open>False\<close>.\<close>

fun py_eq_zero :: "pyval \<Rightarrow> bool" where
  "py_eq_zero (PInt i) = (i = 0)"
| "py_eq_zero (PBool b) = (\<not> b)"
| "py_eq_zero v = False"

definition pin_select :: "dict \<Rightarrow> notion_prop" where
  "pin_select memo =
     get_select (PStr (if py_eq_zero (dict_get_default memo ''pin'' (PInt 0)) then str_no else str_yes))"

text \<open>The dict literal \<open>properties\<close> of \<open>insert_memo\<close>, in the order it is written.\<close>

definition insert_properties :: "env \<Rightarrow> dict \<Rightarrow> string \<Rightarrow> properties" where
  "insert_properties e memo content_text =
     [(key_title, get_title (truncate_string e content_text)),
      (key_tags, get_multi_select (py_or (dict_get memo ''tags'') (PList []))),
      (key_pin, pin_select memo),
      (''slug'', get_rich_text (dict_get_default memo ''slug'' (PStr []))),
      (key_created, get_date (dict_get_default memo ''created_at'' (PStr []))),
      (key_updated, get_date (dict_get_default memo ''updated_at'' (PStr []))),
      (key_source, get_select (py_or (dict_get memo ''source'') (PStr []))),
      (key_linked_count, get_number (dict_get_default memo ''linked_count'' (PInt 0)))]"

text \<open>The dict literal \<open>properties\<close> of \<open>update_memo\<close>.\<close>

definition update_properties :: "env \<Rightarrow> dict \<Rightarrow> string \<Rightarrow> properties" where
  "update_properties e memo content_text =
     [(key_title, get_title (truncate_string e content_text)),
      (key_updated, get_date (dict_get_default memo ''updated_at'' (PStr []))),
      (key_linked_count, get_number (dict_get_default memo ''linked_count'' (PInt 0))),
      (key_tags, get_multi_select (py_or (dict_get memo ''tags'') (PList []))),
      (key_pin, pin_select memo)]"

text \<open>
  \<open>insert_memo\<close>. The result is the raised exception or \<open>()\<close>, with the log as it
  stands when the method is left. \<open>random.choice\<close> raises IndexError on an empty
  sequence; \<open>page["id"]\<close> raises KeyError when the answer has no id. The calls of
  \<open>print\<close> are left out.
\<close>

definition insert_memo :: "env \<Rightarrow> dict \<Rightarrow> event list \<Rightarrow> (error + unit) \<times> event list" where
  "insert_memo e memo log =
     (case safe_md_and_text e memo of
        Inl err \<Rightarrow> (Inl err, log)
      | Inr (content_md, content_text) \<Rightarrow>
          (let parent = PDict [(''database_id'', page_id e), (''type'', PStr ''database_id'')];
               properties = insert_properties e memo content_text
           in if cover e = [] then (Inl IndexError, log)
              else
                (let random_cover = cover e ! (random_index e log mod length (cover e));
                     log1 = log @ [Pages_create parent icon_url random_cover properties];
                     page = pages_create e log1
                 in case map_of page ''id'' of
                      None \<Rightarrow> (Inl KeyError, log1)
                    | Some pid \<Rightarrow> (Inr (), log1 @ [Upload_single_file_content content_md pid]))))"

text \<open>\<open>update_memo\<close>.\<close>

definition update_memo :: "env \<Rightarrow> dict \<Rightarrow> pyval \<Rightarrow> event list \<Rightarrow> (error + unit) \<times> event list" where
  "update_memo e memo pid log =
     (case safe_md_and_text e memo of
        Inl err \<Rightarrow> (Inl err, log)
      | Inr (content_md, content_text) \<Rightarrow>
          (let properties = update_properties e memo content_text;
               log1 = log @ [Pages_update pid properties];
               page = pages_update e log1
           in case map_of page ''id'' of
                None \<Rightarrow> (Inl KeyError, log1)
              | Some i \<Rightarrow>
                  (Inr (), log1 @ [Clear_page_content i, Upload_single_file_content content_md i])))"

section \<open>Pagination\<close>

text \<open>\<open>str(n)\<close> of an integer.\<close>

fun str_of_nat :: "nat \<Rightarrow> string" where
  "str_of_nat n =
     (if n < 10 then [''0123456789'' ! n]
      else str_of_nat (n div 10) @ [''0123456789'' ! (n mod 10)])"

declare str_of_nat.simps [simp del]

definition str_of_int :: "int \<Rightarrow> string" where
  "str_of_int i = (if i < 0 then CHR ''-'' # str_of_nat (nat (- i)) else str_of_nat (nat i))"

text \<open>
  The new cursor after a non-empty page:
  \<open>str(int(time.mktime(time.strptime(new_memo_list[-1]["updated_at"], "%Y-%m-%d %H:%M:%S"))))\<close>.
  The subscript raises KeyError when the key is missing, \<open>strptime\<close> raises TypeError on
  a value that is not a string and ValueError on a string that does not match the format.
  The field \<open>mktime_strptime\<close> of the environment is the composition of the two library
  calls and \<open>int\<close> in the local time zone, \<open>None\<close> where \<open>strptime\<close> does not parse.
\<close>

definition next_cursor :: "env \<Rightarrow> dict list \<Rightarrow> error + string" where
  "next_cursor e new_memo_list =
     (case map_of (last new_memo_list) ''updated_at'' of
        None \<Rightarrow> Inl KeyError
      | Some (PStr s) \<Rightarrow>
          (case mktime_strptime e s of
             None \<Rightarrow> Inl ValueError
           | Some t \<Rightarrow> Inr (str_of_int t))
      | Some v \<Rightarrow> Inl TypeError)"

text \<open>
  The \<open>while True\<close> loop of \<open>sync_to_notion\<close>. Nothing bounds the number of pages, so the
  loop is a partial function: \<open>None\<close> is the run that never leaves the loop.
\<close>

partial_function (option) fetch_loop ::
  "env \<Rightarrow> string option \<Rightarrow> string \<Rightarrow> dict list \<Rightarrow> event list
     \<Rightarrow> ((error + dict list) \<times> event list) option" where
  "fetch_loop e authorization latest_updated_at memo_list log =
     (let log1 = log @ [Get_memo_list authorization latest_updated_at];
          new_memo_list = get_memo_list e log1
      in if new_memo_list = [] then Some (Inr memo_list, log1)
         else
           (case next_cursor e new_memo_list of
              Inl err \<Rightarrow> Some (Inl err, log1)
            | Inr c \<Rightarrow> fetch_loop e authorization c (memo_list @ new_memo_list) log1))"

section \<open>Identifier index\<close>

text \<open>
  The loop that fills \<open>slug_map\<close>. \<open>get_rich_text_from_result\<close> answers the text of the
  record's property, or \<open>None\<close>.
\<close>

fun build_slug_map :: "env \<Rightarrow> dict list \<Rightarrow> (string \<rightharpoonup> pyval) \<Rightarrow> (string \<rightharpoonup> pyval)" where
  "build_slug_map e [] slug_map = slug_map"
| "build_slug_map e (notion_memo # rest) slug_map =
     (case get_rich_text_from_result e notion_memo ''slug'' of
        None \<Rightarrow> build_slug_map e rest slug_map
      | Some key \<Rightarrow>
          if key \<noteq> [] then build_slug_map e rest (slug_map(key \<mapsto> dict_get notion_memo ''id''))
          else build_slug_map e rest slug_map)"

text \<open>
  \<open>slug in slug_map\<close> and \<open>slug_map[slug]\<close>. The keys of the map are strings; a list or
  a dict is not hashable and both operations raise TypeError on it.
\<close>

fun slug_in :: "pyval \<Rightarrow> (string \<rightharpoonup> pyval) \<Rightarrow> error + bool" where
  "slug_in (PStr s) m = Inr (m s \<noteq> None)"
| "slug_in (PList xs) m = Inl TypeError"
| "slug_in (PDict d) m = Inl TypeError"
| "slug_in v m = Inr False"

fun slug_getitem :: "(string \<rightharpoonup> pyval) \<Rightarrow> pyval \<Rightarrow> error + pyval" where
  "slug_getitem m (PStr s) = (case m s of None \<Rightarrow> Inl KeyError | Some v \<Rightarrow> Inr v)"
| "slug_getitem m (PList xs) = Inl TypeError"
| "slug_getitem m (PDict d) = Inl TypeError"
| "slug_getitem m v = Inl KeyError"

section \<open>Orchestrator\<close>

definition parse_bool_env :: "env \<Rightarrow> string \<Rightarrow> bool \<Rightarrow> bool" where
  "parse_bool_env e name dflt =
     (case getenv e name of
        None \<Rightarrow> dflt
      | Some val \<Rightarrow> lower e (strip e val) \<in> {''1'', ''true'', ''yes'', ''y'', ''on''})"

definition parse_int_env :: "env \<Rightarrow> string \<Rightarrow> int \<Rightarrow> int" where
  "parse_int_env e name dflt =
     (case getenv e name of
        None \<Rightarrow> dflt
      | Some val \<Rightarrow>
          if strip e val = [] then dflt
          else (case int_of_str e val of None \<Rightarrow> dflt | Some i \<Rightarrow> i))"

text \<open>The body of the loop \<open>for memo in memo_list\<close>.\<close>

definition sync_memo ::
  "env \<Rightarrow> bool \<Rightarrow> int \<Rightarrow> (string \<rightharpoonup> pyval) \<Rightarrow> dict \<Rightarrow> event list \<Rightarrow> (error + unit) \<times> event list" where
  "sync_memo e full_update interval_day slug_map memo log =
     (let slug = dict_get memo ''slug'' in
      case slug_in slug slug_map of
        Inl err \<Rightarrow> (Inl err, log)
      | Inr True \<Rightarrow>
          if \<not> full_update \<and> \<not> is_within_n_days e (dict_get_default memo ''updated_at'' (PStr [])) interval_day
          then (Inr (), log)
          else
            (case slug_getitem slug_map slug of
               Inl err \<Rightarrow> (Inl err, log)
             | Inr pid \<Rightarrow> update_memo e memo pid log)
      | Inr False \<Rightarrow> insert_memo e memo log)"

fun sync_memos ::
  "env \<Rightarrow> bool \<Rightarrow> int \<Rightarrow> (string \<rightharpoonup> pyval) \<Rightarrow> dict list \<Rightarrow> event list \<Rightarrow> (error + unit) \<times> event list" where
  "sync_memos e full_update interval_day slug_map [] log = (Inr (), log)"
| "sync_memos e full_update interval_day slug_map (memo # rest) log =
     (case sync_memo e full_update interval_day slug_map memo log of
        (Inl err, log1) \<Rightarrow> (Inl err, log1)
      | (Inr u, log1) \<Rightarrow> sync_memos e full_update interval_day slug_map rest log1)"

text \<open>The second and third part of \<open>sync_to_notion\<close>, from the fetched memo list on.\<close>

definition reconcile :: "env \<Rightarrow> dict list \<Rightarrow> event list \<Rightarrow> (error + unit) \<times> event list" where
  "reconcile e memo_list log =
     (let log2 = log @ [Query_all (page_id e)];
          notion_memo_list = query_all e log2;
          slug_map = build_slug_map e notion_memo_list Map.empty;
          full_update = parse_bool_env e ''FULL_UPDATE'' False;
          interval_day = parse_int_env e ''UPDATE_INTERVAL_DAY'' 7
      in sync_memos e full_update interval_day slug_map memo_list log2)"

definition sync_to_notion :: "env \<Rightarrow> event list \<Rightarrow> ((error + unit) \<times> event list) option" where
  "sync_to_notion e log =
     (let authorization = getenv e ''FLOMO_TOKEN'' in
      case fetch_loop e authorization ''0'' [] log of
        None \<Rightarrow> None
      | Some (Inl err, log1) \<Rightarrow> Some (Inl err, log1)
      | Some (Inr memo_list, log1) \<Rightarrow> Some (reconcile e memo_list log1))"

section \<open>Notions the statements use\<close>

text \<open>
  The image urls of a list of file entries as the description of the normalizer has
  them: the url strings of the entries of type image with a non-empty url, in order.
\<close>

fun image_urls :: "pyval list \<Rightarrow> string list" where
  "image_urls [] = []"
| "image_urls (PDict f # fs) =
     (case (map_of f ''type'', map_of f ''url'') of
        (Some (PStr t), Some (PStr u)) \<Rightarrow>
          if t = ''image'' \<and> u \<noteq> [] then u # image_urls fs else image_urls fs
      | other \<Rightarrow> image_urls fs)"
| "image_urls (v # fs) = image_urls fs"

fun join_lines :: "string list \<Rightarrow> string" where
  "join_lines [] = []"
| "join_lines [u] = u"
| "join_lines (u # v # us) = u @ CHR 0x0A # join_lines (v # us)"

text \<open>An entry whose url would make the join fail: an image entry with a url that is
  neither empty nor a string.\<close>

fun url_is_text :: "pyval \<Rightarrow> bool" where
  "url_is_text (PDict f) =
     (if dict_get f ''type'' = PStr ''image'' \<and> truthy (dict_get f ''url'')
      then (case dict_get f ''url'' of PStr u \<Rightarrow> True | other \<Rightarrow> False)
      else True)"
| "url_is_text v = True"

text \<open>Whether the fallback path can walk the files of a memo and join what it finds:
  the value under \<open>files\<close> is falsy or iterable, and no image entry has a url that is
  neither empty nor a string.\<close>

definition files_safe :: "dict \<Rightarrow> bool" where
  "files_safe memo =
     (case py_iter (py_or (dict_get memo ''files'') (PList [])) of
        Inl err \<Rightarrow> False
      | Inr fs \<Rightarrow> list_all url_is_text fs)"

text \<open>The entries that the fallback path walks, when it can walk and join them: the
  items of the value under \<open>files\<close> (nothing when it is missing or falsy), provided the
  value is iterable and no image entry has a url that is neither empty nor a string.\<close>

definition file_entries :: "dict \<Rightarrow> pyval list option" where
  "file_entries memo =
     (case py_iter (py_or (dict_get memo ''files'') (PList [])) of
        Inl err \<Rightarrow> None
      | Inr fs \<Rightarrow> if list_all url_is_text fs then Some fs else None)"

text \<open>
  The cursor after a page, as the paginator's description has it: the epoch seconds of
  the \<open>updated_at\<close> of the last memo of the page, printed as a decimal number.
\<close>

definition cursor_after :: "env \<Rightarrow> dict list \<Rightarrow> string option" where
  "cursor_after e page =
     (case dict_get (last page) ''updated_at'' of
        PStr s \<Rightarrow> map_option str_of_int (mktime_strptime e s)
      | v \<Rightarrow> None)"

text \<open>
  \<open>after_pages e a c log pages\<close>: starting with cursor \<open>c\<close> and log \<open>log\<close>, the source
  answers the successive requests with the non-empty pages \<open>pages\<close>, each request
  carrying the cursor of the page before it. The value is the cursor and the log after
  the last of them.
\<close>

fun after_pages ::
  "env \<Rightarrow> string option \<Rightarrow> string \<Rightarrow> event list \<Rightarrow> dict list list \<Rightarrow> (string \<times> event list) option" where
  "after_pages e a c log [] = Some (c, log)"
| "after_pages e a c log (p # ps) =
     (if p \<noteq> [] \<and> get_memo_list e (log @ [Get_memo_list a c]) = p
      then (case cursor_after e p of
              None \<Rightarrow> None
            | Some c' \<Rightarrow> after_pages e a c' (log @ [Get_memo_list a c]) ps)
      else None)"

text \<open>The write operations of a log.\<close>

fun is_write :: "event \<Rightarrow> bool" where
  "is_write (Get_memo_list a c) = False"
| "is_write (Query_all p) = False"
| "is_write ev = True"

definition write_events :: "event list \<Rightarrow> event list" where
  "write_events log = filter is_write log"

text \<open>The creates of a log that carry a given slug property.\<close>

fun created_slug :: "event \<Rightarrow> notion_prop option" where
  "created_slug (Pages_create parent icon cov props) = map_of props ''slug''"
| "created_slug ev = None"

definition creates_for :: "pyval \<Rightarrow> event list \<Rightarrow> nat" where
  "creates_for v log = length (filter (\<lambda>ev. created_slug ev = Some (get_rich_text v)) log)"

text \<open>The slug a memo is created under, and whether the loop body looks it up with
  success.\<close>

definition slug_property :: "dict \<Rightarrow> pyval" where
  "slug_property memo = dict_get_default memo ''slug'' (PStr [])"

definition indexed :: "(string \<rightharpoonup> pyval) \<Rightarrow> dict \<Rightarrow> bool" where
  "indexed slug_map memo =
     (case dict_get memo ''slug'' of PStr s \<Rightarrow> slug_map s \<noteq> None | v \<Rightarrow> False)"

text \<open>The records of a scan that carry the identifier \<open>k\<close>.\<close>

definition records_with :: "env \<Rightarrow> string \<Rightarrow> dict list \<Rightarrow> dict list" where
  "records_with e k rs = filter (\<lambda>r. get_rich_text_from_result e r ''slug'' = Some k) rs"

text \<open>
  Two runs in succession, the second starting from the log the first one left: the
  value is the list of write operations of the second run.
\<close>

definition second_run_writes :: "env \<Rightarrow> event list option" where
  "second_run_writes e =
     (case sync_to_notion e [] of
        Some (Inr u, log1) \<Rightarrow>
          (case sync_to_notion e log1 of
             Some (r, log2) \<Rightarrow> Some (write_events (drop (length log1) log2))
           | None \<Rightarrow> None)
      | other \<Rightarrow> None)"

text \<open>The index that a run builds when its pagination has left the log \<open>log\<close>.\<close>

definition run_index :: "env \<Rightarrow> event list \<Rightarrow> (string \<rightharpoonup> pyval)" where
  "run_index e log = build_slug_map e (query_all e (log @ [Query_all (page_id e)])) Map.empty"

text \<open>The memos of a list that a run creates under the slug property \<open>v\<close>: those that
  carry it and are not found in the index.\<close>

definition created_under :: "(string \<rightharpoonup> pyval) \<Rightarrow> pyval \<Rightarrow> dict list \<Rightarrow> dict list" where
  "created_under slug_map v memos =
     filter (\<lambda>memo. slug_property memo = v \<and> \<not> indexed slug_map memo) memos"

section \<open>A small world to run the program in\<close>

text \<open>
  A source that answers the request with cursor \<open>0\<close> with a fixed page and every other
  request with the empty page, and a destination that keeps the records created so
  far: a record has the number of its creation as id and its slug text under the key
  \<open>slug\<close>. The converters are the identity on text, the clock knows one timestamp, and
  \<open>fresh\<close> is the answer of the freshness test.
\<close>

definition sim_slug :: "properties \<Rightarrow> pyval" where
  "sim_slug props = (case map_of props ''slug'' of Some (get_rich_text v) \<Rightarrow> v | other \<Rightarrow> PNone)"

fun sim_records :: "nat \<Rightarrow> event list \<Rightarrow> dict list" where
  "sim_records n [] = []"
| "sim_records n (Pages_create parent icon cov props # evs) =
     [(''id'', PInt (int n)), (''slug'', sim_slug props)] # sim_records (Suc n) evs"
| "sim_records n (ev # evs) = sim_records n evs"

definition sim_text :: "pyval \<Rightarrow> error + string" where
  "sim_text v = (case v of PStr s \<Rightarrow> Inr s | other \<Rightarrow> Inl TypeError)"

definition sim_env :: "dict list \<Rightarrow> bool \<Rightarrow> env" where
  "sim_env page fresh =
     \<lparr> get_memo_list =
         (\<lambda>log. case rev log of
                  Get_memo_list a c # evs \<Rightarrow> if c = ''0'' then page else []
                | other \<Rightarrow> []),
       query_all = sim_records 0,
       pages_create = (\<lambda>log. [(''id'', PInt (int (length (sim_records 0 log)) - 1))]),
       pages_update =
         (\<lambda>log. case rev log of Pages_update pid props # evs \<Rightarrow> [(''id'', pid)] | other \<Rightarrow> []),
       page_id = PStr ''db'',
       get_rich_text_from_result =
         (\<lambda>r name. case map_of r name of Some (PStr s) \<Rightarrow> Some s | other \<Rightarrow> None),
       cover = [''cover.png''],
       random_index = (\<lambda>log. 0),
       markdownify = sim_text,
       html2text = sim_text,
       truncate_string = take 100,
       is_within_n_days = (\<lambda>ts n. fresh),
       mktime_strptime = map_of [(''2024-01-01 00:00:00'', 1704067200)],
       getenv = (\<lambda>name. None),
       strip = (\<lambda>s. s),
       lower = (\<lambda>s. s),
       int_of_str = (\<lambda>s. None) \<rparr>"

definition memo_a :: dict where
  "memo_a = [(''slug'', PStr ''a''), (''content'', PStr ''hi''),
             (''updated_at'', PStr ''2024-01-01 00:00:00'')]"

definition memo_no_slug :: dict where
  "memo_no_slug = [(''content'', PStr ''hi''), (''updated_at'', PStr ''2024-01-01 00:00:00'')]"

definition records_demo :: "dict list" where
  "records_demo =
     [[(''id'', PInt 0), (''slug'', PStr ''a'')],
      [(''id'', PInt 1), (''slug'', PStr [])],
      [(''id'', PInt 2)],
      [(''id'', PInt 3), (''slug'', PStr ''a'')]]"

definition memo_bad :: dict where
  "memo_bad = [(''slug'', PStr ''b''), (''content'', PStr ''x''), (''updated_at'', PStr ''yesterday'')]"

definition sim_parent :: pyval where
  "sim_parent = PDict [(''database_id'', PStr ''db''), (''type'', PStr ''database_id'')]"

text \<open>The log that the first run leaves in the small world whose source holds \<open>memo_a\<close>.\<close>

definition first_run_log :: "bool \<Rightarrow> event list" where
  "first_run_log fresh =
     [Get_memo_list None ''0'', Get_memo_list None ''1704067200'', Query_all (PStr ''db''),
      Pages_create sim_parent icon_url ''cover.png''
        (insert_properties (sim_env [memo_a] fresh) memo_a ''hi''),
      Upload_single_file_content ''hi'' (PInt 0)]"

text \<open>The log that the first run leaves when the source holds \<open>memo_no_slug\<close>.\<close>

definition no_slug_run_log :: "event list" where
  "no_slug_run_log =
     [Get_memo_list None ''0'', Get_memo_list None ''1704067200'', Query_all (PStr ''db''),
      Pages_create sim_parent icon_url ''cover.png''
        (insert_properties (sim_env [memo_no_slug] False) memo_no_slug ''hi''),
      Upload_single_file_content ''hi'' (PInt 0)]"

section \<open>Properties of the content normalizer\<close>

lemma str_join_lines: "str_join [CHR 0x0A] (map PStr us) = Inr (join_lines us)"
  by (induction us rule: join_lines.induct) auto

lemma str_join_fails:
  "\<not> list_all (\<lambda>v. case v of PStr s \<Rightarrow> True | other \<Rightarrow> False) xs \<Longrightarrow> str_join sep xs = Inl TypeError"
  by (induction sep xs rule: str_join.induct) (auto split: sum.splits)

lemma str_join_returns:
  "list_all (\<lambda>v. case v of PStr s \<Rightarrow> True | other \<Rightarrow> False) xs \<Longrightarrow> \<exists>r. str_join sep xs = Inr r"
  by (induction sep xs rule: str_join.induct) (auto split: sum.splits)

lemma url_is_text_iff:
  "url_is_text f = (is_image_file f \<longrightarrow> (case file_url f of PStr s \<Rightarrow> True | other \<Rightarrow> False))"
  by (cases f) auto

lemma image_url_text:
  "list_all (\<lambda>v. case v of PStr s \<Rightarrow> True | other \<Rightarrow> False) (map file_url (filter is_image_file fs))
     = list_all url_is_text fs"
  by (induction fs) (simp_all add: url_is_text_iff)

lemma image_files_urls:
  "list_all url_is_text fs \<Longrightarrow> map file_url (filter is_image_file fs) = map PStr (image_urls fs)"
  by (induction fs rule: image_urls.induct)
     (auto simp: dict_get_def split: option.splits pyval.splits if_splits)

lemma fallback_result:
  assumes "\<not> truthy (dict_get memo ''content'')"
  shows "safe_md_and_text e memo =
           (case file_entries memo of
              None \<Rightarrow> Inl TypeError
            | Some fs \<Rightarrow> Inr (join_lines (image_urls fs), join_lines (image_urls fs)))"
proof (cases "py_iter (py_or (dict_get memo ''files'') (PList []))")
  case (Inl err)
  then have "err = TypeError"
    by (cases "py_or (dict_get memo ''files'') (PList [])") auto
  with Inl show ?thesis
    using assms by (simp add: safe_md_and_text_def file_entries_def)
next
  case (Inr fs)
  show ?thesis
  proof (cases "list_all url_is_text fs")
    case True
    then show ?thesis
      using assms Inr
      by (simp add: safe_md_and_text_def file_entries_def Let_def image_files_urls str_join_lines)
  next
    case False
    then have bad: "\<not> list_all (\<lambda>v. case v of PStr s \<Rightarrow> True | other \<Rightarrow> False)
                        (map file_url (filter is_image_file fs))"
      by (simp add: image_url_text)
    then have "str_join [CHR 0x0A] (map file_url (filter is_image_file fs)) = Inl TypeError"
      by (rule str_join_fails)
    moreover from bad have "map file_url (filter is_image_file fs) \<noteq> []"
      by auto
    ultimately show ?thesis
      using assms Inr False by (simp add: safe_md_and_text_def file_entries_def Let_def)
  qed
qed

lemma files_safe_entries: "files_safe memo \<longleftrightarrow> file_entries memo \<noteq> None"
  by (simp add: files_safe_def file_entries_def split: sum.splits)

text \<open>
  Claim C4, as stated: for every memo with absent, \<open>None\<close> or empty content the normalizer
  returns the joined image urls. It does not for every such memo: with an image entry
  whose url is a number the join raises TypeError, where the claim has the url of the
  first entry as the result.
\<close>

theorem normalizer_fallback_counterexample:
  "safe_md_and_text (sim_env [] False)
     [(''content'', PNone),
      (''files'', PList [PDict [(''type'', PStr ''image''), (''url'', PStr ''u1'')],
                         PDict [(''type'', PStr ''image''), (''url'', PInt 7)]])] = Inl TypeError"
  by (simp add: safe_md_and_text_def dict_get_def py_or_def)

text \<open>
  Claim C4, amended. For a memo whose content is absent, \<open>None\<close> or empty (any falsy
  value): when the value under \<open>files\<close> is missing, falsy or iterable and every dict
  entry of type image with a non-empty url has a string for its url, both results of
  the normalizer are the urls of the entries of type image with a non-empty url, in
  the order of the entries, joined by newlines, and both are the empty string when
  there is no such entry; in every other case the normalizer raises TypeError.
\<close>

theorem normalizer_fallback_result:
  assumes "\<not> truthy (dict_get memo ''content'')"
  shows "safe_md_and_text e memo =
           (case file_entries memo of
              None \<Rightarrow> Inl TypeError
            | Some fs \<Rightarrow> Inr (join_lines (image_urls fs), join_lines (image_urls fs)))
         \<and> (\<forall>fs. file_entries memo = Some fs \<and> image_urls fs = [] \<longrightarrow>
               safe_md_and_text e memo = Inr ([], []))"
  using fallback_result [OF assms, of e] by auto

theorem normalizer_fallback_result_witness:
  "\<not> truthy (dict_get [(''content'', PNone),
       (''files'', PList [PDict [(''type'', PStr ''image''), (''url'', PStr ''u1'')],
                          PStr ''x'',
                          PDict [(''type'', PStr ''audio''), (''url'', PStr ''u2'')],
                          PDict [(''type'', PStr ''image''), (''url'', PStr ''u3'')]])] ''content'')
   \<and> safe_md_and_text (sim_env [] False) [(''content'', PNone),
       (''files'', PList [PDict [(''type'', PStr ''image''), (''url'', PStr ''u1'')],
                          PStr ''x'',
                          PDict [(''type'', PStr ''audio''), (''url'', PStr ''u2'')],
                          PDict [(''type'', PStr ''image''), (''url'', PStr ''u3'')]])]
       = Inr (''u1'' @ [CHR 0x0A] @ ''u3'', ''u1'' @ [CHR 0x0A] @ ''u3'')
   \<and> safe_md_and_text (sim_env [] False)
         [(''content'', PStr []), (''files'', PDict [(''type'', PStr ''image'')])] = Inr ([], [])"
proof -
  let ?fs = "[PDict [(''type'', PStr ''image''), (''url'', PStr ''u1'')],
              PStr ''x'',
              PDict [(''type'', PStr ''audio''), (''url'', PStr ''u2'')],
              PDict [(''type'', PStr ''image''), (''url'', PStr ''u3'')]]"
  let ?memo = "[(''content'', PNone), (''files'', PList ?fs)]"
  let ?memo2 = "[(''content'', PStr []), (''files'', PDict [(''type'', PStr ''image'')])]"
  have c: "\<not> truthy (dict_get ?memo ''content'')"
    by (simp add: dict_get_def)
  have f: "file_entries ?memo = Some ?fs"
    by (simp add: file_entries_def dict_get_def py_or_def)
  have c2: "\<not> truthy (dict_get ?memo2 ''content'')"
    by (simp add: dict_get_def)
  have f2: "file_entries ?memo2 = Some [PStr ''type'']"
    by (simp add: file_entries_def dict_get_def py_or_def)
  show ?thesis
    using normalizer_fallback_result [OF c, of "sim_env [] False"]
      normalizer_fallback_result [OF c2, of "sim_env [] False"] c
    by (simp add: f f2)
qed

text \<open>
  Claim C9, as stated: the normalizer returns a pair of strings for every memo dict.
  It does not: an image entry whose url is a number makes the join raise TypeError.
\<close>

theorem normalizer_raises_counterexample:
  "safe_md_and_text (sim_env [] False)
     [(''files'', PList [PDict [(''type'', PStr ''image''), (''url'', PInt 5)]])] = Inl TypeError"
  by (simp add: safe_md_and_text_def dict_get_def py_or_def)

text \<open>
  Claim C9, amended. For a memo whose content is missing, \<open>None\<close> or empty, the
  normalizer returns a pair of strings exactly when the value under \<open>files\<close> is
  missing, falsy or iterable and every dict entry of type image with a non-empty url
  has a string for its url. Entries that are not dicts are skipped. Otherwise it raises
  TypeError.
\<close>

theorem normalizer_fallback_returns:
  assumes "\<not> truthy (dict_get memo ''content'')"
  shows "((\<exists>md text. safe_md_and_text e memo = Inr (md, text)) \<longleftrightarrow> files_safe memo)
         \<and> (\<not> files_safe memo \<longrightarrow> safe_md_and_text e memo = Inl TypeError)"
  using fallback_result [OF assms, of e]
  by (auto simp: files_safe_entries split: option.splits)

theorem normalizer_fallback_returns_witness:
  "\<not> truthy (dict_get [(''files'', PList [PInt 3, PDict [(''type'', PStr ''image''), (''url'', PStr ''u'')]])] ''content'')
   \<and> files_safe [(''files'', PList [PInt 3, PDict [(''type'', PStr ''image''), (''url'', PStr ''u'')]])]
   \<and> (\<exists>md text. safe_md_and_text (sim_env [] False)
         [(''files'', PList [PInt 3, PDict [(''type'', PStr ''image''), (''url'', PStr ''u'')]])] = Inr (md, text))"
proof -
  let ?memo = "[(''files'', PList [PInt 3, PDict [(''type'', PStr ''image''), (''url'', PStr ''u'')]])]"
  have c: "\<not> truthy (dict_get ?memo ''content'')"
    by (simp add: dict_get_def)
  have f: "files_safe ?memo"
    by (simp add: files_safe_def dict_get_def py_or_def)
  show ?thesis
    using normalizer_fallback_returns [OF c, of "sim_env [] False"] c f by blast
qed

section \<open>Properties of the update and create paths\<close>

lemma update_memo_returns:
  assumes "safe_md_and_text e memo = Inr (content_md, content_text)"
    and "map_of (pages_update e (log @ [Pages_update pid (update_properties e memo content_text)])) ''id'' = Some i"
  shows "update_memo e memo pid log =
           (Inr (), log @ [Pages_update pid (update_properties e memo content_text),
                           Clear_page_content i, Upload_single_file_content content_md i])"
  using assms by (simp add: update_memo_def Let_def)

lemma update_keys:
  "map fst (update_properties e memo content_text) =
     [key_title, key_updated, key_linked_count, key_tags, key_pin]"
  by (simp add: update_properties_def)

lemma keys_distinct:
  "distinct [key_title, key_updated, key_linked_count, key_tags, key_pin, ''slug'', key_created, key_source]"
  by (simp add: key_title_def key_updated_def key_linked_count_def key_tags_def key_pin_def
      key_created_def key_source_def)

lemma update_memo_extends: "\<exists>evs. snd (update_memo e memo pid log) = log @ evs"
  by (auto simp: update_memo_def Let_def split: sum.splits option.splits)

lemma insert_memo_extends: "\<exists>evs. snd (insert_memo e memo log) = log @ evs"
  by (auto simp: insert_memo_def Let_def split: sum.splits option.splits)

lemma update_memo_not_skip: "update_memo e memo pid log \<noteq> (Inr (), log)"
  by (auto simp: update_memo_def Let_def split: sum.splits option.splits)

lemma insert_memo_not_skip: "insert_memo e memo log \<noteq> (Inr (), log)"
  by (auto simp: insert_memo_def Let_def split: sum.splits option.splits)

lemma update_memo_event:
  "update_memo e memo pid log = (Inr u, log') \<Longrightarrow>
     \<exists>content_text evs. log' = log @ Pages_update pid (update_properties e memo content_text) # evs"
  by (fastforce simp: update_memo_def Let_def split: sum.splits option.splits)

lemma insert_properties_slug:
  "map_of (insert_properties e memo t) ''slug'' = Some (get_rich_text (slug_property memo))"
  by (simp add: insert_properties_def slug_property_def key_title_def key_tags_def key_pin_def)

lemma creates_for_append: "creates_for v (xs @ ys) = creates_for v xs + creates_for v ys"
  by (simp add: creates_for_def)

lemma insert_memo_creates:
  "creates_for v (snd (insert_memo e memo log))
     \<le> creates_for v log + (if slug_property memo = v then 1 else 0)"
  by (auto simp: insert_memo_def Let_def creates_for_def insert_properties_slug
      split: sum.splits option.splits)

lemma insert_memo_creates_returned:
  "insert_memo e memo log = (Inr u, log') \<Longrightarrow>
     creates_for v log' = creates_for v log + (if slug_property memo = v then 1 else 0)"
  by (auto simp: insert_memo_def Let_def creates_for_def insert_properties_slug
      split: sum.splits option.splits if_splits)

lemma update_memo_creates:
  "creates_for v (snd (update_memo e memo pid log)) = creates_for v log"
  by (auto simp: update_memo_def Let_def creates_for_def split: sum.splits option.splits)

lemma sim_normalize_memo_a: "safe_md_and_text (sim_env page fresh) memo_a = Inr (''hi'', ''hi'')"
  by (simp add: safe_md_and_text_def memo_a_def dict_get_def sim_env_def sim_text_def)

lemma sim_normalize_memo_no_slug:
  "safe_md_and_text (sim_env page fresh) memo_no_slug = Inr (''hi'', ''hi'')"
  by (simp add: safe_md_and_text_def memo_no_slug_def dict_get_def sim_env_def sim_text_def)

text \<open>
  Claim C5. When the normalizer returns and the destination answers the property update
  with a record handle, the update path issues exactly three operations, in this
  order: the property update of the given record, the clearing of the content of the
  record the destination answered with, and the upload of the normalized markdown body
  to it. The properties written are title, updated time, linked count, tags and pin
  state, five different columns; slug and created time are not among them.
\<close>

theorem update_memo_writes:
  assumes "safe_md_and_text e memo = Inr (content_md, content_text)"
    and "map_of (pages_update e (log @ [Pages_update pid (update_properties e memo content_text)])) ''id'' = Some i"
  shows "update_memo e memo pid log =
           (Inr (), log @ [Pages_update pid (update_properties e memo content_text),
                           Clear_page_content i, Upload_single_file_content content_md i])
         \<and> map fst (update_properties e memo content_text) =
             [key_title, key_updated, key_linked_count, key_tags, key_pin]
         \<and> distinct (map fst (update_properties e memo content_text))
         \<and> map_of (update_properties e memo content_text) ''slug'' = None
         \<and> map_of (update_properties e memo content_text) key_created = None"
proof -
  have d: "distinct (map fst (update_properties e memo content_text))"
    using keys_distinct by (simp add: update_keys)
  have s: "''slug'' \<notin> set (map fst (update_properties e memo content_text))"
    and c: "key_created \<notin> set (map fst (update_properties e memo content_text))"
    using keys_distinct by (auto simp: update_keys)
  from s c have "map_of (update_properties e memo content_text) ''slug'' = None"
    and "map_of (update_properties e memo content_text) key_created = None"
    by (simp_all add: map_of_eq_None_iff)
  then show ?thesis
    using update_memo_returns [OF assms] update_keys d by simp
qed

theorem update_memo_writes_witness:
  "update_memo (sim_env [] False) memo_a (PInt 0) [] =
     (Inr (), [Pages_update (PInt 0) (update_properties (sim_env [] False) memo_a ''hi''),
               Clear_page_content (PInt 0), Upload_single_file_content ''hi'' (PInt 0)])"
proof -
  have a: "map_of (pages_update (sim_env [] False)
             ([] @ [Pages_update (PInt 0) (update_properties (sim_env [] False) memo_a ''hi'')])) ''id''
           = Some (PInt 0)"
    by (simp add: sim_env_def)
  show ?thesis
    using update_memo_writes [OF sim_normalize_memo_a a] by simp
qed

section \<open>Properties of the identifier index\<close>

lemma build_slug_map_lookup:
  "build_slug_map e rs m k =
     (if k \<noteq> [] \<and> records_with e k rs \<noteq> []
      then Some (dict_get (last (records_with e k rs)) ''id'') else m k)"
  by (induction rs arbitrary: m) (auto simp: records_with_def split: option.splits)

text \<open>
  Claim C7. The index built from a scan of the destination has no entry for the empty
  identifier, no entry for an identifier that no record carries (so a record whose
  identifier is empty or missing adds nothing), and maps an identifier that one or
  more records carry to the id of the last of them in scan order.
\<close>

theorem slug_map_last_record:
  "build_slug_map e rs Map.empty k =
     (if k = [] then None
      else if records_with e k rs = [] then None
      else Some (dict_get (last (records_with e k rs)) ''id''))"
  by (simp add: build_slug_map_lookup)

theorem slug_map_last_record_witness:
  "build_slug_map (sim_env [] False) records_demo Map.empty ''a'' = Some (PInt 3)
   \<and> build_slug_map (sim_env [] False) records_demo Map.empty [] = None
   \<and> dom (build_slug_map (sim_env [] False) records_demo Map.empty) = {''a''}"
proof -
  have r: "records_with (sim_env [] False) k records_demo =
             (if k = ''a'' then [[(''id'', PInt 0), (''slug'', PStr ''a'')], [(''id'', PInt 3), (''slug'', PStr ''a'')]]
              else if k = [] then [[(''id'', PInt 1), (''slug'', PStr [])]] else [])" for k
    by (auto simp: records_with_def records_demo_def sim_env_def)
  have "build_slug_map (sim_env [] False) records_demo Map.empty k =
          (if k = ''a'' then Some (PInt 3) else None)" for k
    using slug_map_last_record [of "sim_env [] False" records_demo k]
    by (simp add: r dict_get_def)
  then show ?thesis
    by (auto simp: dom_def)
qed

section \<open>Properties of the reconciliation loop\<close>

lemma sync_memo_extends: "\<exists>evs. snd (sync_memo e fu n m memo log) = log @ evs"
proof -
  have "sync_memo e fu n m memo log = insert_memo e memo log
        \<or> (\<exists>pid. sync_memo e fu n m memo log = update_memo e memo pid log)
        \<or> snd (sync_memo e fu n m memo log) = log"
    by (auto simp: sync_memo_def Let_def split: sum.splits bool.splits)
  then show ?thesis
    using insert_memo_extends [of e memo log] update_memo_extends [of e memo _ log] by auto
qed

lemma sync_memos_extends: "\<exists>evs. snd (sync_memos e fu n m memos log) = log @ evs"
proof (induction memos arbitrary: log)
  case Nil
  then show ?case by simp
next
  case (Cons memo memos)
  obtain r log1 where s: "sync_memo e fu n m memo log = (r, log1)"
    by (cases "sync_memo e fu n m memo log")
  obtain evs where e1: "log1 = log @ evs"
    using sync_memo_extends [of e fu n m memo log] s by auto
  show ?case
  proof (cases r)
    case (Inl err)
    then show ?thesis using s e1 by simp
  next
    case (Inr u)
    obtain evs' where "snd (sync_memos e fu n m memos log1) = log1 @ evs'"
      using Cons.IH by blast
    then show ?thesis using s e1 Inr by simp
  qed
qed

lemma sync_memo_indexed:
  "indexed m memo \<Longrightarrow> \<exists>s pid. dict_get memo ''slug'' = PStr s \<and> m s = Some pid \<and>
     sync_memo e fu n m memo log =
       (if \<not> fu \<and> \<not> is_within_n_days e (dict_get_default memo ''updated_at'' (PStr [])) n
        then (Inr (), log) else update_memo e memo pid log)"
  by (auto simp: indexed_def sync_memo_def split: pyval.splits)

lemma sync_memo_not_indexed:
  "\<not> indexed m memo \<Longrightarrow>
     sync_memo e fu n m memo log = insert_memo e memo log \<or>
     sync_memo e fu n m memo log = (Inl TypeError, log)"
  by (cases "dict_get memo ''slug''") (auto simp: indexed_def sync_memo_def)

lemma sync_memo_creates:
  "creates_for v (snd (sync_memo e fu n m memo log))
     \<le> creates_for v log + (if slug_property memo = v \<and> \<not> indexed m memo then 1 else 0)"
proof (cases "indexed m memo")
  case True
  from sync_memo_indexed [OF True, of e fu n log] obtain s pid where
    "sync_memo e fu n m memo log = (Inr (), log) \<or> sync_memo e fu n m memo log = update_memo e memo pid log"
    by metis
  then show ?thesis
    using update_memo_creates [of v e memo pid log] by auto
next
  case False
  from sync_memo_not_indexed [OF False, of e fu n log] show ?thesis
    using insert_memo_creates [of v e memo log] False by auto
qed

lemma sync_memos_creates:
  "creates_for v (snd (sync_memos e fu n m memos log))
     \<le> creates_for v log + length (filter (\<lambda>memo. slug_property memo = v \<and> \<not> indexed m memo) memos)"
proof (induction memos arbitrary: log)
  case Nil
  then show ?case by simp
next
  case (Cons memo memos)
  obtain r log1 where s: "sync_memo e fu n m memo log = (r, log1)"
    by (cases "sync_memo e fu n m memo log")
  have b: "creates_for v log1 \<le> creates_for v log + (if slug_property memo = v \<and> \<not> indexed m memo then 1 else 0)"
    using sync_memo_creates [of v e fu n m memo log] s by simp
  show ?case
  proof (cases r)
    case (Inl err)
    then show ?thesis using s b by auto
  next
    case (Inr u)
    have "creates_for v (snd (sync_memos e fu n m memos log1))
        \<le> creates_for v log1 + length (filter (\<lambda>memo. slug_property memo = v \<and> \<not> indexed m memo) memos)"
      by (rule Cons.IH)
    then show ?thesis using s b Inr by auto
  qed
qed

lemma distinct_filter_le_one:
  "distinct (map f xs) \<Longrightarrow> length (filter (\<lambda>x. f x = v \<and> P x) xs) \<le> 1"
proof (induction xs)
  case Nil
  then show ?case by simp
next
  case (Cons x xs)
  then have d: "f x \<notin> f ` set xs" and ih: "length (filter (\<lambda>x. f x = v \<and> P x) xs) \<le> 1"
    by auto
  show ?case
  proof (cases "f x = v")
    case True
    with d have "\<forall>y\<in>set xs. f y \<noteq> v" by (metis imageI)
    then have "filter (\<lambda>x. f x = v \<and> P x) xs = []"
      by (simp add: filter_empty_conv)
    then show ?thesis by simp
  next
    case False
    with ih show ?thesis by simp
  qed
qed

lemma built_index_no_empty: "build_slug_map e rs Map.empty [] = None"
  by (simp add: build_slug_map_lookup)

lemma indexed_slug_property:
  "m [] = None \<Longrightarrow> m s \<noteq> None \<Longrightarrow> slug_property memo = PStr s \<Longrightarrow> indexed m memo"
  by (auto simp: slug_property_def indexed_def dict_get_default_def dict_get_def split: option.splits)

section \<open>Properties of the pagination loop\<close>

lemma next_cursor_iff: "next_cursor e p = Inr c \<longleftrightarrow> cursor_after e p = Some c"
  by (auto simp: next_cursor_def cursor_after_def dict_get_def split: option.splits pyval.splits)

lemma fetch_loop_empty:
  "get_memo_list e (log @ [Get_memo_list a c]) = [] \<Longrightarrow>
     fetch_loop e a c acc log = Some (Inr acc, log @ [Get_memo_list a c])"
  by (subst fetch_loop.simps) simp

lemma fetch_loop_error:
  "get_memo_list e (log @ [Get_memo_list a c]) \<noteq> [] \<Longrightarrow>
   next_cursor e (get_memo_list e (log @ [Get_memo_list a c])) = Inl err \<Longrightarrow>
     fetch_loop e a c acc log = Some (Inl err, log @ [Get_memo_list a c])"
  by (subst fetch_loop.simps) simp

lemma fetch_loop_step:
  "get_memo_list e (log @ [Get_memo_list a c]) = p \<Longrightarrow> p \<noteq> [] \<Longrightarrow> next_cursor e p = Inr c' \<Longrightarrow>
     fetch_loop e a c acc log = fetch_loop e a c' (acc @ p) (log @ [Get_memo_list a c])"
  by (subst fetch_loop.simps) simp

lemma fetch_after_pages:
  "after_pages e a c log ps = Some (c', log') \<Longrightarrow>
     fetch_loop e a c acc log = fetch_loop e a c' (acc @ concat ps) log'"
proof (induction ps arbitrary: c log acc)
  case Nil
  then show ?case by simp
next
  case (Cons p ps)
  from Cons.prems obtain c1 where
    p: "p \<noteq> []" "get_memo_list e (log @ [Get_memo_list a c]) = p" and
    c1: "cursor_after e p = Some c1" and
    rest: "after_pages e a c1 (log @ [Get_memo_list a c]) ps = Some (c', log')"
    by (auto split: if_splits option.splits)
  have "fetch_loop e a c acc log = fetch_loop e a c1 (acc @ p) (log @ [Get_memo_list a c])"
    using fetch_loop_step [OF p(2) p(1)] c1 by (simp add: next_cursor_iff)
  also have "\<dots> = fetch_loop e a c' ((acc @ p) @ concat ps) log'"
    by (rule Cons.IH [OF rest])
  finally show ?case by simp
qed

lemma fetch_loop_returned:
  assumes "fetch_loop e a c acc log = Some y"
  shows "\<exists>ps c' log'. after_pages e a c log ps = Some (c', log') \<and>
       snd y = log' @ [Get_memo_list a c'] \<and>
       (case fst y of
          Inr ms \<Rightarrow> get_memo_list e (snd y) = [] \<and> ms = acc @ concat ps
        | Inl err \<Rightarrow> get_memo_list e (snd y) \<noteq> [] \<and> next_cursor e (get_memo_list e (snd y)) = Inl err)"
proof -
  let ?Q = "\<lambda>e a c acc log y ps c' log'. after_pages e a c log ps = Some (c', log') \<and>
       snd y = log' @ [Get_memo_list a c'] \<and>
       (case fst y of
          Inr ms \<Rightarrow> get_memo_list e (snd y) = [] \<and> ms = acc @ concat ps
        | Inl err \<Rightarrow> get_memo_list e (snd y) \<noteq> [] \<and> next_cursor e (get_memo_list e (snd y)) = Inl err)"
  let ?P = "\<lambda>e a c acc log y. \<exists>ps c' log'. ?Q e a c acc log y ps c' log'"
  have "?P e a c acc log y"
  proof (rule fetch_loop.raw_induct [where P = ?P, OF _ assms], goal_cases)
    case (1 f e a c acc log y)
    let ?log1 = "log @ [Get_memo_list a c]"
    let ?p = "get_memo_list e ?log1"
    show ?case
    proof (cases "?p = []")
      case True
      with 1(2) have "y = (Inr acc, ?log1)" by (simp add: Let_def)
      then have "?Q e a c acc log y [] c log"
        using True by simp
      then show ?thesis by blast
    next
      case False
      show ?thesis
      proof (cases "next_cursor e ?p")
        case (Inl err)
        with 1(2) False have "y = (Inl err, ?log1)" by (simp add: Let_def)
        then have "?Q e a c acc log y [] c log"
          using False Inl by simp
        then show ?thesis by blast
      next
        case (Inr c1)
        with 1(2) False have "f e a c1 (acc @ ?p) ?log1 = Some y" by (simp add: Let_def)
        from 1(1) [OF this] obtain ps c' log' where q: "?Q e a c1 (acc @ ?p) ?log1 y ps c' log'"
          by blast
        from Inr have "cursor_after e ?p = Some c1"
          by (simp add: next_cursor_iff)
        then have "after_pages e a c log (?p # ps) = Some (c', log')"
          using False q by simp
        with q have "?Q e a c acc log y (?p # ps) c' log'"
          by (auto simp del: after_pages.simps split: sum.splits)
        then show ?thesis by blast
      qed
    qed
  qed
  then show ?thesis .
qed

section \<open>More on the reconciliation loop\<close>

lemma sync_memo_full_update:
  assumes "dict_get memo ''slug'' = PStr s" and "slug_map s = Some pid"
  shows "sync_memo e True n slug_map memo log = update_memo e memo pid log"
  using assms by (simp add: sync_memo_def)

lemma sync_memo_no_slug:
  assumes "map_of memo ''slug'' = None"
  shows "sync_memo e fu n slug_map memo log = insert_memo e memo log"
  using assms by (simp add: sync_memo_def dict_get_def)

lemma sync_memos_full_update:
  assumes "sync_memos e True n m memos log = (Inr u, log')"
    and "memo \<in> set memos" and "dict_get memo ''slug'' = PStr s" and "m s = Some pid"
  shows "\<exists>content_text. Pages_update pid (update_properties e memo content_text) \<in> set (drop (length log) log')"
  using assms(1,2)
proof (induction memos arbitrary: log)
  case Nil
  then show ?case by simp
next
  case (Cons x memos)
  obtain r log1 where s: "sync_memo e True n m x log = (r, log1)"
    by (cases "sync_memo e True n m x log")
  with Cons.prems(1) obtain u1 where r: "r = Inr u1"
    by (cases r) auto
  with s Cons.prems(1) have rest: "sync_memos e True n m memos log1 = (Inr u, log')"
    by simp
  obtain evs where e1: "log1 = log @ evs"
    using sync_memo_extends [of e True n m x log] s by auto
  obtain evs' where e2: "log' = log1 @ evs'"
    using sync_memos_extends [of e True n m memos log1] rest by auto
  show ?case
  proof (cases "x = memo")
    case True
    have "update_memo e memo pid log = (Inr u1, log1)"
      using s r True sync_memo_full_update [where slug_map = m, OF assms(3,4), of e n log] by simp
    then obtain content_text evs2 where
      "log1 = log @ Pages_update pid (update_properties e memo content_text) # evs2"
      using update_memo_event by blast
    then show ?thesis using e2 by auto
  next
    case False
    with Cons.prems(2) have "memo \<in> set memos" by simp
    from Cons.IH [OF rest this] obtain content_text where
      "Pages_update pid (update_properties e memo content_text) \<in> set (drop (length log1) log')"
      by blast
    then show ?thesis using e1 e2 by auto
  qed
qed

lemma sync_memo_skip_iff:
  "sync_memo e False n m memo log = (Inr (), log) \<longleftrightarrow>
     indexed m memo \<and> \<not> is_within_n_days e (dict_get_default memo ''updated_at'' (PStr [])) n"
proof (cases "indexed m memo")
  case True
  from sync_memo_indexed [OF True, of e False n log] obtain s pid where
    eq: "sync_memo e False n m memo log =
           (if \<not> False \<and> \<not> is_within_n_days e (dict_get_default memo ''updated_at'' (PStr [])) n
            then (Inr (), log) else update_memo e memo pid log)"
    by blast
  show ?thesis
    using True eq update_memo_not_skip [of e memo pid log] by (simp split: if_splits)
next
  case False
  from sync_memo_not_indexed [OF False, of e False n log] show ?thesis
    using False insert_memo_not_skip [of e memo log] by auto
qed

lemma sync_memos_skip_iff:
  "sync_memos e False n m memos log = (Inr u, log') \<Longrightarrow>
     log' = log \<longleftrightarrow>
       (\<forall>memo\<in>set memos. indexed m memo \<and>
          \<not> is_within_n_days e (dict_get_default memo ''updated_at'' (PStr [])) n)"
proof (induction memos arbitrary: log)
  case Nil
  then show ?case by auto
next
  case (Cons x memos)
  obtain r log1 where s: "sync_memo e False n m x log = (r, log1)"
    by (cases "sync_memo e False n m x log")
  with Cons.prems obtain u1 where r: "r = Inr u1"
    by (cases r) auto
  with s Cons.prems have rest: "sync_memos e False n m memos log1 = (Inr u, log')"
    by simp
  obtain evs where e1: "log1 = log @ evs"
    using sync_memo_extends [of e False n m x log] s by auto
  obtain evs' where e2: "log' = log1 @ evs'"
    using sync_memos_extends [of e False n m memos log1] rest by auto
  have head: "log1 = log \<longleftrightarrow> indexed m x \<and> \<not> is_within_n_days e (dict_get_default x ''updated_at'' (PStr [])) n"
    using sync_memo_skip_iff [of e n m x log] s r by auto
  have "log' = log \<longleftrightarrow> log1 = log \<and> log' = log1"
    using e1 e2 by auto
  then show ?case
    using head Cons.IH [OF rest] by auto
qed

lemma insert_memo_writes: "\<exists>evs. snd (insert_memo e memo log) = log @ evs \<and> list_all is_write evs"
  by (auto simp: insert_memo_def Let_def split: sum.splits option.splits)

lemma update_memo_only_writes: "\<exists>evs. snd (update_memo e memo pid log) = log @ evs \<and> list_all is_write evs"
  by (auto simp: update_memo_def Let_def split: sum.splits option.splits)

lemma sync_memo_writes: "\<exists>evs. snd (sync_memo e fu n m memo log) = log @ evs \<and> list_all is_write evs"
proof -
  have "sync_memo e fu n m memo log = insert_memo e memo log
        \<or> (\<exists>pid. sync_memo e fu n m memo log = update_memo e memo pid log)
        \<or> snd (sync_memo e fu n m memo log) = log"
    by (auto simp: sync_memo_def Let_def split: sum.splits bool.splits)
  then show ?thesis
    using insert_memo_writes [of e memo log] update_memo_only_writes [of e memo _ log] by auto
qed

lemma sync_memos_writes: "\<exists>evs. snd (sync_memos e fu n m memos log) = log @ evs \<and> list_all is_write evs"
proof (induction memos arbitrary: log)
  case Nil
  then show ?case by simp
next
  case (Cons memo memos)
  obtain r log1 where s: "sync_memo e fu n m memo log = (r, log1)"
    by (cases "sync_memo e fu n m memo log")
  obtain evs where e1: "log1 = log @ evs" "list_all is_write evs"
    using sync_memo_writes [of e fu n m memo log] s by auto
  show ?case
  proof (cases r)
    case (Inl err)
    then show ?thesis using s e1 by simp
  next
    case (Inr u)
    obtain evs' where "snd (sync_memos e fu n m memos log1) = log1 @ evs'" "list_all is_write evs'"
      using Cons.IH by blast
    then show ?thesis using s e1 Inr by simp
  qed
qed

lemma after_pages_log:
  "after_pages e a c log ps = Some (c', log') \<Longrightarrow> \<exists>gs. log' = log @ gs \<and> write_events gs = []"
proof (induction ps arbitrary: c log)
  case Nil
  then show ?case by (simp add: write_events_def)
next
  case (Cons p ps)
  from Cons.prems obtain c1 where
    "after_pages e a c1 (log @ [Get_memo_list a c]) ps = Some (c', log')"
    by (auto split: if_splits option.splits)
  from Cons.IH [OF this] obtain gs where "log' = (log @ [Get_memo_list a c]) @ gs" "write_events gs = []"
    by blast
  then have "log' = log @ (Get_memo_list a c # gs) \<and> write_events (Get_memo_list a c # gs) = []"
    by (simp add: write_events_def)
  then show ?case by blast
qed

lemma fetch_loop_log:
  assumes "fetch_loop e a c acc log = Some (r, log1)"
  shows "\<exists>gs. log1 = log @ gs \<and> write_events gs = []"
proof -
  from fetch_loop_returned [OF assms] obtain ps c' log' where
    "after_pages e a c log ps = Some (c', log')" "log1 = log' @ [Get_memo_list a c']"
    by auto
  moreover from after_pages_log [OF this(1)] obtain gs where "log' = log @ gs" "write_events gs = []"
    by blast
  ultimately have "log1 = log @ (gs @ [Get_memo_list a c']) \<and> write_events (gs @ [Get_memo_list a c']) = []"
    by (simp add: write_events_def)
  then show ?thesis by blast
qed

lemma write_events_all: "list_all is_write evs \<Longrightarrow> write_events evs = evs"
  by (induction evs) (auto simp: write_events_def)

lemma rerun:
  assumes f: "fetch_loop e (getenv e ''FLOMO_TOKEN'') ''0'' [] log = Some (Inr memos, log1)"
    and b: "parse_bool_env e ''FULL_UPDATE'' False = False"
    and r: "sync_to_notion e log = Some (Inr u, log2)"
  shows "write_events (drop (length log) log2) = [] \<longleftrightarrow>
           (\<forall>memo\<in>set memos.
              indexed (build_slug_map e (query_all e (log1 @ [Query_all (page_id e)])) Map.empty) memo \<and>
              \<not> is_within_n_days e (dict_get_default memo ''updated_at'' (PStr []))
                   (parse_int_env e ''UPDATE_INTERVAL_DAY'' 7))"
proof -
  let ?q = "log1 @ [Query_all (page_id e)]"
  let ?m = "build_slug_map e (query_all e ?q) Map.empty"
  let ?n = "parse_int_env e ''UPDATE_INTERVAL_DAY'' 7"
  from f r b have s: "sync_memos e False ?n ?m memos ?q = (Inr u, log2)"
    by (simp add: sync_to_notion_def reconcile_def Let_def)
  obtain gs where g: "log1 = log @ gs" "write_events gs = []"
    using fetch_loop_log [OF f] by blast
  obtain evs where e: "log2 = ?q @ evs" "list_all is_write evs"
    using sync_memos_writes [of e False ?n ?m memos ?q] s by auto
  have "write_events (drop (length log) log2) = evs"
    using g e write_events_all [OF e(2)] by (simp add: write_events_def)
  then have "write_events (drop (length log) log2) = [] \<longleftrightarrow> log2 = ?q"
    using e(1) by auto
  then show ?thesis
    using sync_memos_skip_iff [OF s] by simp
qed

lemma sync_memo_creates_returned:
  assumes "sync_memo e fu n m memo log = (Inr u, log1)"
  shows "creates_for v log1 = creates_for v log + (if slug_property memo = v \<and> \<not> indexed m memo then 1 else 0)"
proof (cases "indexed m memo")
  case True
  from sync_memo_indexed [OF True, of e fu n log] obtain s pid where
    "sync_memo e fu n m memo log = (Inr (), log) \<or> sync_memo e fu n m memo log = update_memo e memo pid log"
    by metis
  with assms have "log1 = log \<or> update_memo e memo pid log = (Inr u, log1)"
    by auto
  then have "creates_for v log1 = creates_for v log"
    using update_memo_creates [of v e memo pid log] by auto
  then show ?thesis
    using True by simp
next
  case False
  from sync_memo_not_indexed [OF False, of e fu n log] assms
  have "insert_memo e memo log = (Inr u, log1)" by auto
  from insert_memo_creates_returned [OF this, of v] show ?thesis
    using False by simp
qed

lemma sync_memos_creates_returned:
  "sync_memos e fu n m memos log = (Inr u, log') \<Longrightarrow>
   creates_for v log' =
     creates_for v log + length (filter (\<lambda>memo. slug_property memo = v \<and> \<not> indexed m memo) memos)"
proof (induction memos arbitrary: log)
  case Nil
  then show ?case by simp
next
  case (Cons x memos)
  obtain r log1 where s: "sync_memo e fu n m x log = (r, log1)"
    by (cases "sync_memo e fu n m x log")
  with Cons.prems obtain u1 where r: "r = Inr u1"
    by (cases r) auto
  with s Cons.prems have rest: "sync_memos e fu n m memos log1 = (Inr u, log')"
    by simp
  show ?case
    using Cons.IH [OF rest] sync_memo_creates_returned [of e fu n m x log u1 log1 v] s r by simp
qed

section \<open>Running the small world\<close>

lemma str_of_epoch: "str_of_int 1704067200 = ''1704067200''"
  by (simp add: str_of_int_def str_of_nat.simps)

lemma sim_fields:
  "get_memo_list (sim_env page fresh) =
     (\<lambda>log. case rev log of Get_memo_list a c # evs \<Rightarrow> if c = ''0'' then page else [] | other \<Rightarrow> [])"
  "query_all (sim_env page fresh) = sim_records 0"
  "pages_create (sim_env page fresh) = (\<lambda>log. [(''id'', PInt (int (length (sim_records 0 log)) - 1))])"
  "pages_update (sim_env page fresh) =
     (\<lambda>log. case rev log of Pages_update pid props # evs \<Rightarrow> [(''id'', pid)] | other \<Rightarrow> [])"
  "page_id (sim_env page fresh) = PStr ''db''"
  "get_rich_text_from_result (sim_env page fresh) =
     (\<lambda>r name. case map_of r name of Some (PStr s) \<Rightarrow> Some s | other \<Rightarrow> None)"
  "cover (sim_env page fresh) = [''cover.png'']"
  "random_index (sim_env page fresh) = (\<lambda>log. 0)"
  "is_within_n_days (sim_env page fresh) = (\<lambda>ts n. fresh)"
  "mktime_strptime (sim_env page fresh) = map_of [(''2024-01-01 00:00:00'', 1704067200)]"
  "getenv (sim_env page fresh) = (\<lambda>name. None)"
  by (simp_all add: sim_env_def)

lemma sim_cursor_memo_a: "cursor_after (sim_env page fresh) (ms @ [memo_a]) = Some ''1704067200''"
  by (simp add: cursor_after_def memo_a_def dict_get_def sim_fields str_of_epoch)

lemma sim_fetch:
  assumes "page \<noteq> []" and "cursor_after (sim_env page fresh) page = Some c" and "c \<noteq> ''0''"
  shows "fetch_loop (sim_env page fresh) a ''0'' [] log =
           Some (Inr page, log @ [Get_memo_list a ''0'', Get_memo_list a c])"
proof -
  have "after_pages (sim_env page fresh) a ''0'' log [page] = Some (c, log @ [Get_memo_list a ''0''])"
    using assms by (simp add: sim_fields)
  from fetch_after_pages [OF this, of "[]"] show ?thesis
    using assms(3) fetch_loop_empty [of "sim_env page fresh" "log @ [Get_memo_list a ''0'']" a c page]
    by (simp add: sim_fields)
qed

lemma sim_config:
  "parse_bool_env (sim_env page fresh) ''FULL_UPDATE'' False = False"
  "parse_int_env (sim_env page fresh) ''UPDATE_INTERVAL_DAY'' 7 = 7"
  by (simp_all add: parse_bool_env_def parse_int_env_def sim_fields)

lemma memo_a_slug: "dict_get memo_a ''slug'' = PStr ''a''"
  by (simp add: memo_a_def dict_get_def)

lemma sim_records_append:
  "sim_records n (xs @ ys) = sim_records n xs @ sim_records (n + length (sim_records n xs)) ys"
  by (induction n xs rule: sim_records.induct) simp_all

lemma sim_insert:
  assumes "safe_md_and_text (sim_env page fresh) memo = Inr (md, t)"
  shows "insert_memo (sim_env page fresh) memo log =
     (Inr (), log @ [Pages_create sim_parent
                       icon_url ''cover.png'' (insert_properties (sim_env page fresh) memo t),
                     Upload_single_file_content md (PInt (int (length (sim_records 0 log))))])"
  using assms by (simp add: insert_memo_def Let_def sim_fields sim_records_append sim_parent_def)

lemma sim_update:
  assumes "safe_md_and_text (sim_env page fresh) memo = Inr (md, t)"
  shows "update_memo (sim_env page fresh) memo pid log =
     (Inr (), log @ [Pages_update pid (update_properties (sim_env page fresh) memo t),
                     Clear_page_content pid, Upload_single_file_content md pid])"
  using assms by (simp add: update_memo_def Let_def sim_fields)

lemma sim_slug_insert: "sim_slug (insert_properties e memo t) = slug_property memo"
  by (simp add: sim_slug_def insert_properties_slug)

lemma memo_a_slug_property: "slug_property memo_a = PStr ''a''"
  by (simp add: slug_property_def memo_a_def dict_get_default_def)

lemma sim_fetch_memo_a:
  "fetch_loop (sim_env (ms @ [memo_a]) fresh) None ''0'' [] log =
     Some (Inr (ms @ [memo_a]), log @ [Get_memo_list None ''0'', Get_memo_list None ''1704067200''])"
  by (rule sim_fetch) (simp_all add: sim_cursor_memo_a)

lemma sim_first_run:
  "sync_to_notion (sim_env [memo_a] fresh) [] = Some (Inr (), first_run_log fresh)"
proof -
  have f: "fetch_loop (sim_env [memo_a] fresh) None ''0'' [] [] =
      Some (Inr [memo_a], [Get_memo_list None ''0'', Get_memo_list None ''1704067200''])"
    using sim_fetch_memo_a [of "[]" fresh "[]"] by simp
  show ?thesis
    by (simp add: sync_to_notion_def sim_fields f reconcile_def Let_def sim_config
        sync_memo_def memo_a_slug sim_insert [OF sim_normalize_memo_a] first_run_log_def)
qed

lemma sim_second_index:
  "build_slug_map (sim_env [memo_a] fresh)
     (query_all (sim_env [memo_a] fresh)
        ((first_run_log fresh @ [Get_memo_list None ''0'', Get_memo_list None ''1704067200''])
           @ [Query_all (page_id (sim_env [memo_a] fresh))])) Map.empty
   = [''a'' \<mapsto> PInt 0]"
  by (simp add: sim_fields first_run_log_def sim_slug_insert memo_a_slug_property dict_get_def)

lemma sim_second_run:
  "sync_to_notion (sim_env [memo_a] fresh) (first_run_log fresh) =
     Some (Inr (), first_run_log fresh @
       [Get_memo_list None ''0'', Get_memo_list None ''1704067200'', Query_all (PStr ''db'')] @
       (if fresh then [Pages_update (PInt 0) (update_properties (sim_env [memo_a] fresh) memo_a ''hi''),
                       Clear_page_content (PInt 0), Upload_single_file_content ''hi'' (PInt 0)]
        else []))"
proof -
  have f: "fetch_loop (sim_env [memo_a] fresh) None ''0'' [] (first_run_log fresh) =
      Some (Inr [memo_a], first_run_log fresh @ [Get_memo_list None ''0'', Get_memo_list None ''1704067200''])"
    using sim_fetch_memo_a [of "[]" fresh] by simp
  have q: "sync_memos (sim_env [memo_a] fresh) False 7 [''a'' \<mapsto> PInt 0] [memo_a] log =
     (Inr (), log @ (if fresh then [Pages_update (PInt 0) (update_properties (sim_env [memo_a] fresh) memo_a ''hi''),
                       Clear_page_content (PInt 0), Upload_single_file_content ''hi'' (PInt 0)]
        else []))" for log
    by (simp add: sync_memo_def memo_a_slug sim_fields sim_update [OF sim_normalize_memo_a])
  have r: "reconcile (sim_env [memo_a] fresh) [memo_a]
             (first_run_log fresh @ [Get_memo_list None ''0'', Get_memo_list None ''1704067200'']) =
           sync_memos (sim_env [memo_a] fresh) False 7 [''a'' \<mapsto> PInt 0] [memo_a]
             ((first_run_log fresh @ [Get_memo_list None ''0'', Get_memo_list None ''1704067200''])
                @ [Query_all (PStr ''db'')])"
    unfolding reconcile_def Let_def sim_second_index sim_config
    by (simp add: sim_fields)
  show ?thesis
    by (simp add: sync_to_notion_def f r q sim_fields del: sync_memos.simps)
qed

lemma sim_duplicate_run:
  "sync_to_notion (sim_env [memo_a, memo_a] False) [] =
     Some (Inr (), [Get_memo_list None ''0'', Get_memo_list None ''1704067200'', Query_all (PStr ''db''),
        Pages_create sim_parent icon_url ''cover.png''
          (insert_properties (sim_env [memo_a, memo_a] False) memo_a ''hi''),
        Upload_single_file_content ''hi'' (PInt 0),
        Pages_create sim_parent icon_url ''cover.png''
          (insert_properties (sim_env [memo_a, memo_a] False) memo_a ''hi''),
        Upload_single_file_content ''hi'' (PInt 1)])"
proof -
  have f: "fetch_loop (sim_env [memo_a, memo_a] False) None ''0'' [] [] =
      Some (Inr [memo_a, memo_a], [Get_memo_list None ''0'', Get_memo_list None ''1704067200''])"
    using sim_fetch_memo_a [of "[memo_a]" False "[]"] by simp
  show ?thesis
    by (simp add: sync_to_notion_def sim_fields f reconcile_def Let_def sim_config
        sync_memo_def memo_a_slug sim_insert [OF sim_normalize_memo_a])
qed

lemma reconcile_run_index:
  "reconcile e memos log =
     sync_memos e (parse_bool_env e ''FULL_UPDATE'' False) (parse_int_env e ''UPDATE_INTERVAL_DAY'' 7)
       (run_index e log) memos (log @ [Query_all (page_id e)])"
  by (simp add: reconcile_def run_index_def Let_def)

lemma insert_memo_event:
  "insert_memo e memo log = (Inr u, log') \<Longrightarrow>
     \<exists>content_text cov evs. log' = log @
        Pages_create (PDict [(''database_id'', page_id e), (''type'', PStr ''database_id'')])
          icon_url cov (insert_properties e memo content_text) # evs"
  by (fastforce simp: insert_memo_def Let_def split: sum.splits option.splits if_splits)

lemma sync_memos_no_slug:
  assumes "sync_memos e fu n m memos log = (Inr u, log')"
    and "memo \<in> set memos" and "map_of memo ''slug'' = None"
  shows "\<exists>content_text cov.
           Pages_create (PDict [(''database_id'', page_id e), (''type'', PStr ''database_id'')])
             icon_url cov (insert_properties e memo content_text) \<in> set (drop (length log) log')"
  using assms(1,2)
proof (induction memos arbitrary: log)
  case Nil
  then show ?case by simp
next
  case (Cons x memos)
  obtain r log1 where s: "sync_memo e fu n m x log = (r, log1)"
    by (cases "sync_memo e fu n m x log")
  with Cons.prems(1) obtain u1 where r: "r = Inr u1"
    by (cases r) auto
  with s Cons.prems(1) have rest: "sync_memos e fu n m memos log1 = (Inr u, log')"
    by simp
  obtain evs where e1: "log1 = log @ evs"
    using sync_memo_extends [of e fu n m x log] s by auto
  obtain evs' where e2: "log' = log1 @ evs'"
    using sync_memos_extends [of e fu n m memos log1] rest by auto
  show ?case
  proof (cases "x = memo")
    case True
    have "insert_memo e memo log = (Inr u1, log1)"
      using s r True sync_memo_no_slug [OF assms(3), of e fu n m log] by simp
    from insert_memo_event [OF this] obtain content_text cov evs2 where
      "log1 = log @ Pages_create (PDict [(''database_id'', page_id e), (''type'', PStr ''database_id'')])
          icon_url cov (insert_properties e memo content_text) # evs2"
      by blast
    then show ?thesis using e2 by auto
  next
    case False
    with Cons.prems(2) have "memo \<in> set memos" by simp
    from Cons.IH [OF rest this] obtain content_text cov where
      "Pages_create (PDict [(''database_id'', page_id e), (''type'', PStr ''database_id'')])
             icon_url cov (insert_properties e memo content_text) \<in> set (drop (length log1) log')"
      by blast
    then show ?thesis using e1 e2 by auto
  qed
qed

lemma sync_memos_all_skipped:
  "\<forall>memo\<in>set memos. indexed m memo \<and>
       \<not> is_within_n_days e (dict_get_default memo ''updated_at'' (PStr [])) n \<Longrightarrow>
     sync_memos e False n m memos log = (Inr (), log)"
proof (induction memos)
  case Nil
  then show ?case by simp
next
  case (Cons x memos)
  then have "sync_memo e False n m x log = (Inr (), log)"
    using sync_memo_skip_iff [of e n m x log] by simp
  with Cons show ?case by simp
qed

lemma creates_for_no_writes: "write_events gs = [] \<Longrightarrow> creates_for v gs = 0"
proof (induction gs)
  case Nil
  then show ?case by (simp add: creates_for_def)
next
  case (Cons a gs)
  then show ?case
    by (cases a) (auto simp: write_events_def creates_for_def split: if_splits)
qed

lemma two_runs:
  assumes run1: "sync_to_notion e log0 = Some (Inr u1, log1)"
    and f1: "fetch_loop e (getenv e ''FLOMO_TOKEN'') ''0'' [] log0 = Some (Inr memos, logF1)"
    and f2: "fetch_loop e (getenv e ''FLOMO_TOKEN'') ''0'' [] log1 = Some (Inr memos, logF2)"
    and off: "parse_bool_env e ''FULL_UPDATE'' False = False"
    and slugs: "\<forall>memo\<in>set memos. \<exists>s. s \<noteq> [] \<and> dict_get memo ''slug'' = PStr s"
    and kept: "\<forall>s. run_index e logF1 s \<noteq> None \<longrightarrow> run_index e logF2 s \<noteq> None"
    and shown: "\<forall>s. s \<noteq> [] \<and> 0 < creates_for (PStr s) log1 \<longrightarrow> run_index e logF2 s \<noteq> None"
  shows "\<forall>memo\<in>set memos. indexed (run_index e logF2) memo"
proof
  fix memo assume mem: "memo \<in> set memos"
  let ?n = "parse_int_env e ''UPDATE_INTERVAL_DAY'' 7"
  let ?q = "logF1 @ [Query_all (page_id e)]"
  from slugs mem obtain s where s: "s \<noteq> []" "dict_get memo ''slug'' = PStr s"
    by blast
  have sp: "slug_property memo = PStr s"
    using s(2) by (auto simp: slug_property_def dict_get_def dict_get_default_def split: option.splits)
  from run1 f1 off have r1: "sync_memos e False ?n (run_index e logF1) memos ?q = (Inr u1, log1)"
    by (simp add: sync_to_notion_def reconcile_run_index)
  have "run_index e logF2 s \<noteq> None"
  proof (cases "indexed (run_index e logF1) memo")
    case True
    then have "run_index e logF1 s \<noteq> None"
      using s(2) by (simp add: indexed_def)
    with kept show ?thesis by blast
  next
    case False
    with mem sp have "memo \<in> set (filter (\<lambda>memo. slug_property memo = PStr s \<and>
                         \<not> indexed (run_index e logF1) memo) memos)"
      by simp
    then have "0 < length (filter (\<lambda>memo. slug_property memo = PStr s \<and>
                         \<not> indexed (run_index e logF1) memo) memos)"
      by (metis length_greater_0_conv empty_iff empty_set)
    with sync_memos_creates_returned [OF r1, of "PStr s"] have "0 < creates_for (PStr s) log1"
      by simp
    with shown s(1) show ?thesis by blast
  qed
  then show "indexed (run_index e logF2) memo"
    using s(2) by (simp add: indexed_def)
qed

lemma second_run_skips:
  assumes f2: "fetch_loop e (getenv e ''FLOMO_TOKEN'') ''0'' [] log1 = Some (Inr memos, logF2)"
    and off: "parse_bool_env e ''FULL_UPDATE'' False = False"
    and idx: "\<forall>memo\<in>set memos. indexed (run_index e logF2) memo"
    and stale: "\<forall>memo\<in>set memos. \<not> is_within_n_days e (dict_get_default memo ''updated_at'' (PStr []))
                    (parse_int_env e ''UPDATE_INTERVAL_DAY'' 7)"
  shows "sync_to_notion e log1 = Some (Inr (), logF2 @ [Query_all (page_id e)])
         \<and> write_events (drop (length log1) (logF2 @ [Query_all (page_id e)])) = []"
proof -
  have "sync_memos e False (parse_int_env e ''UPDATE_INTERVAL_DAY'' 7) (run_index e logF2) memos
          (logF2 @ [Query_all (page_id e)]) = (Inr (), logF2 @ [Query_all (page_id e)])"
    using idx stale by (intro sync_memos_all_skipped) simp
  with f2 off have r: "sync_to_notion e log1 = Some (Inr (), logF2 @ [Query_all (page_id e)])"
    by (simp add: sync_to_notion_def reconcile_run_index)
  obtain gs where "logF2 = log1 @ gs" "write_events gs = []"
    using fetch_loop_log [OF f2] by blast
  then have "write_events (drop (length log1) (logF2 @ [Query_all (page_id e)])) = []"
    by (simp add: write_events_def)
  with r show ?thesis by simp
qed

section \<open>Creates per identifier and repeated runs\<close>

lemma creates_for_query: "creates_for v (log @ [Query_all p]) = creates_for v log"
  by (simp add: creates_for_def)

lemma run_index_no_empty: "run_index e log [] = None"
  by (simp add: run_index_def built_index_no_empty)

lemma created_under_indexed:
  assumes "m [] = None" and "m s \<noteq> None"
  shows "created_under m (PStr s) memos = []"
  using indexed_slug_property [OF assms]
  by (auto simp: created_under_def filter_empty_conv)

lemma created_under_distinct:
  "distinct (map slug_property memos) \<Longrightarrow> length (created_under m v memos) \<le> 1"
  unfolding created_under_def by (rule distinct_filter_le_one)

lemma reconcile_creates:
  "creates_for v (snd (reconcile e memos log))
     \<le> creates_for v log + length (created_under (run_index e log) v memos)"
  using sync_memos_creates [of v e _ _ "run_index e log" memos "log @ [Query_all (page_id e)]"]
  by (simp add: reconcile_run_index creates_for_query created_under_def)

lemma reconcile_creates_returned:
  "reconcile e memos log = (Inr u, log') \<Longrightarrow>
     creates_for v log' = creates_for v log + length (created_under (run_index e log) v memos)"
  using sync_memos_creates_returned [of e _ _ "run_index e log" memos "log @ [Query_all (page_id e)]" u log' v]
  by (simp add: reconcile_run_index creates_for_query created_under_def)

lemma reconcile_creates_ge: "creates_for v log \<le> creates_for v (snd (reconcile e memos log))"
proof -
  obtain evs where "snd (reconcile e memos log) = (log @ [Query_all (page_id e)]) @ evs"
    using sync_memos_extends unfolding reconcile_run_index by blast
  then show ?thesis
    by (simp add: creates_for_append)
qed

text \<open>
  Claim C1, amended. The index is built once, before the loop, and is not extended when
  a memo is created. So the creates of a run under a slug property \<open>v\<close> are at most the
  memos of the list that carry \<open>v\<close> and are not found in the index, and exactly those
  when the run completes. Hence: when the memos of the list carry pairwise different
  slugs, at most one create is issued per slug; and no create is issued under an
  identifier that the index holds.
\<close>

theorem creates_per_identifier:
  "creates_for v (snd (reconcile e memos log))
     \<le> creates_for v log + length (created_under (run_index e log) v memos)
   \<and> (\<forall>u log'. reconcile e memos log = (Inr u, log') \<longrightarrow>
        creates_for v log' = creates_for v log + length (created_under (run_index e log) v memos))
   \<and> (distinct (map slug_property memos) \<longrightarrow>
        creates_for v (snd (reconcile e memos log)) \<le> creates_for v log + 1)
   \<and> (\<forall>s. v = PStr s \<and> run_index e log s \<noteq> None \<longrightarrow>
        creates_for v (snd (reconcile e memos log)) = creates_for v log)"
proof (intro conjI allI impI)
  show "creates_for v (snd (reconcile e memos log))
     \<le> creates_for v log + length (created_under (run_index e log) v memos)"
    by (rule reconcile_creates)
next
  fix u log' assume "reconcile e memos log = (Inr u, log')"
  then show "creates_for v log' = creates_for v log + length (created_under (run_index e log) v memos)"
    by (rule reconcile_creates_returned)
next
  assume "distinct (map slug_property memos)"
  then have "length (created_under (run_index e log) v memos) \<le> 1"
    by (rule created_under_distinct)
  with reconcile_creates [of v e memos log]
  show "creates_for v (snd (reconcile e memos log)) \<le> creates_for v log + 1"
    by simp
next
  fix s assume "v = PStr s \<and> run_index e log s \<noteq> None"
  then have "created_under (run_index e log) v memos = []"
    using created_under_indexed [of "run_index e log" s memos] run_index_no_empty [of e log] by simp
  with reconcile_creates [of v e memos log] reconcile_creates_ge [of v log e memos]
  show "creates_for v (snd (reconcile e memos log)) = creates_for v log"
    by simp
qed

theorem creates_per_identifier_witness:
  "distinct (map slug_property [memo_a, memo_no_slug])
   \<and> creates_for (PStr ''a'') (snd (reconcile (sim_env [] False) [memo_a, memo_no_slug] [])) \<le> 1"
proof -
  have d: "distinct (map slug_property [memo_a, memo_no_slug])"
    by (simp add: slug_property_def memo_a_def memo_no_slug_def dict_get_default_def)
  have "creates_for (PStr ''a'') [] = 0"
    by (simp add: creates_for_def)
  with creates_per_identifier [of "PStr ''a''" "sim_env [] False" "[memo_a, memo_no_slug]" "[]"] d
  show ?thesis by simp
qed

text \<open>
  Claim C1, as stated: at most one create per identifier, also for a list with two
  memos of the same slug that the index does not hold. It fails: the source answers
  with the same memo twice, the destination is empty, and the run issues two creates
  under the slug \<open>a\<close>.
\<close>

theorem duplicate_slug_counterexample:
  "(case sync_to_notion (sim_env [memo_a, memo_a] False) [] of
      Some (Inr u, log) \<Rightarrow> creates_for (PStr ''a'') log
    | other \<Rightarrow> 0) = 2
   \<and> run_index (sim_env [memo_a, memo_a] False)
        [Get_memo_list None ''0'', Get_memo_list None ''1704067200''] ''a'' = None"
  by (simp add: sim_duplicate_run creates_for_def insert_properties_slug memo_a_slug_property
      run_index_def sim_fields)

text \<open>
  Claim C2, as stated: the second of two runs in succession issues no write, whatever
  the memos. It fails for a memo inside the refresh window: the first run creates the
  record, the second run finds it in the index, the freshness test answers yes, and
  the run issues the three writes of an update. Full-update mode is off.
\<close>

theorem second_run_updates_counterexample:
  "second_run_writes (sim_env [memo_a] True) =
     Some [Pages_update (PInt 0) (update_properties (sim_env [memo_a] True) memo_a ''hi''),
           Clear_page_content (PInt 0), Upload_single_file_content ''hi'' (PInt 0)]
   \<and> parse_bool_env (sim_env [memo_a] True) ''FULL_UPDATE'' False = False"
  by (simp add: second_run_writes_def sim_first_run sim_second_run sim_config write_events_def)

text \<open>
  Claim C2, amended. Two runs in succession, the second starting from the log \<open>log1\<close>
  the first one left; the source returns the same memos both times; full-update mode
  is off; every memo carries a non-empty text slug; and the destination shows to the
  second run the identifiers it showed to the first and the identifiers of the
  records created so far. Then, when no memo is within the refresh window, the second
  run completes and issues no write; and a second run that completes issues no write
  exactly when no memo is within the refresh window.
\<close>

theorem second_run_writes_nothing:
  assumes "sync_to_notion e log0 = Some (Inr u1, log1)"
    and "fetch_loop e (getenv e ''FLOMO_TOKEN'') ''0'' [] log0 = Some (Inr memos, logF1)"
    and "fetch_loop e (getenv e ''FLOMO_TOKEN'') ''0'' [] log1 = Some (Inr memos, logF2)"
    and "parse_bool_env e ''FULL_UPDATE'' False = False"
    and "\<forall>memo\<in>set memos. \<exists>s. s \<noteq> [] \<and> dict_get memo ''slug'' = PStr s"
    and "\<forall>s. run_index e logF1 s \<noteq> None \<longrightarrow> run_index e logF2 s \<noteq> None"
    and "\<forall>s. s \<noteq> [] \<and> 0 < creates_for (PStr s) log1 \<longrightarrow> run_index e logF2 s \<noteq> None"
  shows "((\<forall>memo\<in>set memos.
             \<not> is_within_n_days e (dict_get_default memo ''updated_at'' (PStr []))
                 (parse_int_env e ''UPDATE_INTERVAL_DAY'' 7)) \<longrightarrow>
           sync_to_notion e log1 = Some (Inr (), logF2 @ [Query_all (page_id e)]) \<and>
           write_events (drop (length log1) (logF2 @ [Query_all (page_id e)])) = [])
         \<and> (\<forall>u2 log2. sync_to_notion e log1 = Some (Inr u2, log2) \<longrightarrow>
               (write_events (drop (length log1) log2) = [] \<longleftrightarrow>
                  (\<forall>memo\<in>set memos.
                     \<not> is_within_n_days e (dict_get_default memo ''updated_at'' (PStr []))
                         (parse_int_env e ''UPDATE_INTERVAL_DAY'' 7))))"
proof -
  have idx: "\<forall>memo\<in>set memos. indexed (run_index e logF2) memo"
    using assms by (rule two_runs)
  show ?thesis
  proof (intro conjI allI impI)
    assume st: "\<forall>memo\<in>set memos.
             \<not> is_within_n_days e (dict_get_default memo ''updated_at'' (PStr []))
                 (parse_int_env e ''UPDATE_INTERVAL_DAY'' 7)"
    from second_run_skips [OF assms(3,4) idx st]
    show "sync_to_notion e log1 = Some (Inr (), logF2 @ [Query_all (page_id e)])"
      and "write_events (drop (length log1) (logF2 @ [Query_all (page_id e)])) = []"
      by simp_all
  next
    fix u2 log2 assume r: "sync_to_notion e log1 = Some (Inr u2, log2)"
    from rerun [OF assms(3,4) r] idx
    show "write_events (drop (length log1) log2) = [] \<longleftrightarrow>
                  (\<forall>memo\<in>set memos.
                     \<not> is_within_n_days e (dict_get_default memo ''updated_at'' (PStr []))
                         (parse_int_env e ''UPDATE_INTERVAL_DAY'' 7))"
      by (auto simp: run_index_def)
  qed
qed

theorem second_run_writes_nothing_witness:
  "sync_to_notion (sim_env [memo_a] False) [] = Some (Inr (), first_run_log False)
   \<and> sync_to_notion (sim_env [memo_a] False) (first_run_log False)
       = Some (Inr (), first_run_log False @
            [Get_memo_list None ''0'', Get_memo_list None ''1704067200'', Query_all (PStr ''db'')])
   \<and> write_events (drop (length (first_run_log False)) (first_run_log False @
            [Get_memo_list None ''0'', Get_memo_list None ''1704067200'', Query_all (PStr ''db'')])) = []
   \<and> second_run_writes (sim_env [memo_a] False) = Some []"
proof -
  let ?e = "sim_env [memo_a] False"
  let ?f1 = "[Get_memo_list None ''0'', Get_memo_list None ''1704067200'']"
  let ?f2 = "first_run_log False @ [Get_memo_list None ''0'', Get_memo_list None ''1704067200'']"
  have r1: "sync_to_notion ?e [] = Some (Inr (), first_run_log False)"
    by (rule sim_first_run)
  have f1: "fetch_loop ?e (getenv ?e ''FLOMO_TOKEN'') ''0'' [] [] = Some (Inr [memo_a], ?f1)"
    using sim_fetch_memo_a [of "[]" False "[]"] by (simp add: sim_fields)
  have f2: "fetch_loop ?e (getenv ?e ''FLOMO_TOKEN'') ''0'' [] (first_run_log False) = Some (Inr [memo_a], ?f2)"
    using sim_fetch_memo_a [of "[]" False "first_run_log False"] by (simp add: sim_fields)
  have off: "parse_bool_env ?e ''FULL_UPDATE'' False = False"
    by (rule sim_config)
  have sl: "\<forall>memo\<in>set [memo_a]. \<exists>s. s \<noteq> [] \<and> dict_get memo ''slug'' = PStr s"
    by (simp add: memo_a_slug)
  have i2: "run_index ?e ?f2 = [''a'' \<mapsto> PInt 0]"
    using sim_second_index [of False] by (simp add: run_index_def)
  have i1: "run_index ?e ?f1 = Map.empty"
    by (simp add: run_index_def sim_fields)
  have kept: "\<forall>s. run_index ?e ?f1 s \<noteq> None \<longrightarrow> run_index ?e ?f2 s \<noteq> None"
    by (simp add: i1)
  have cr: "0 < creates_for (PStr s) (first_run_log False) \<Longrightarrow> s = ''a''" for s
    by (simp add: creates_for_def first_run_log_def insert_properties_slug memo_a_slug_property
        split: if_splits)
  have shown: "\<forall>s. s \<noteq> [] \<and> 0 < creates_for (PStr s) (first_run_log False) \<longrightarrow>
                 run_index ?e ?f2 s \<noteq> None"
    using cr by (auto simp: i2)
  have st: "\<forall>memo\<in>set [memo_a].
             \<not> is_within_n_days ?e (dict_get_default memo ''updated_at'' (PStr []))
                 (parse_int_env ?e ''UPDATE_INTERVAL_DAY'' 7)"
    by (simp add: sim_fields)
  from second_run_writes_nothing [OF r1 f1 f2 off sl kept shown] st
  have r2: "sync_to_notion ?e (first_run_log False) = Some (Inr (), ?f2 @ [Query_all (page_id ?e)])"
    and w: "write_events (drop (length (first_run_log False)) (?f2 @ [Query_all (page_id ?e)])) = []"
    by blast+
  then have "second_run_writes ?e = Some []"
    by (simp add: second_run_writes_def r1)
  with r1 r2 w show ?thesis
    by (simp add: sim_fields)
qed

section \<open>Pagination, full update and memos without a slug\<close>

lemma after_pages_first:
  "after_pages e a c log ps = Some (c', log') \<Longrightarrow>
     \<exists>rest. log' @ [Get_memo_list a c'] = log @ Get_memo_list a c # rest"
proof (cases ps)
  case Nil
  assume "after_pages e a c log ps = Some (c', log')"
  with Nil show ?thesis by simp
next
  case (Cons p qs)
  assume "after_pages e a c log ps = Some (c', log')"
  with Cons obtain c1 where
    "after_pages e a c1 (log @ [Get_memo_list a c]) qs = Some (c', log')"
    by (auto split: if_splits option.splits)
  from after_pages_log [OF this] obtain gs where "log' = (log @ [Get_memo_list a c]) @ gs"
    by blast
  then show ?thesis by simp
qed

lemma fetch_loop_pages:
  assumes "after_pages e a c log pages = Some (c', log1)"
    and "get_memo_list e (log1 @ [Get_memo_list a c']) = []"
  shows "fetch_loop e a c acc log = Some (Inr (acc @ concat pages), log1 @ [Get_memo_list a c'])"
  using fetch_after_pages [OF assms(1), of acc] fetch_loop_empty [OF assms(2)] by simp

lemma fetch_loop_pages_error:
  assumes "after_pages e a c log pages = Some (c', log1)"
    and "get_memo_list e (log1 @ [Get_memo_list a c']) \<noteq> []"
    and "next_cursor e (get_memo_list e (log1 @ [Get_memo_list a c'])) = Inl err"
  shows "fetch_loop e a c acc log = Some (Inl err, log1 @ [Get_memo_list a c'])"
  using fetch_after_pages [OF assms(1), of acc] fetch_loop_error [OF assms(2,3)] by simp

text \<open>
  Claim C3. The loop leaves with the memo list \<open>memo_list\<close> exactly when there are
  non-empty pages, each one the answer to the request that carries the cursor of the
  page before it (the first request carries the cursor \<open>0\<close>, a later one the epoch
  seconds of the \<open>updated_at\<close> of the last memo of the page before), followed by an
  empty answer; the memo list is then the concatenation of the pages in this order and
  the requests of the log are these and no other. The first request of every run that
  leaves the loop carries the cursor \<open>0\<close>, and \<open>sync_to_notion\<close> reconciles the
  concatenation of the pages.
\<close>

theorem pagination_loop:
  "(fetch_loop e a ''0'' [] log = Some (Inr memo_list, log2) \<longleftrightarrow>
      (\<exists>pages c log1. after_pages e a ''0'' log pages = Some (c, log1) \<and>
         get_memo_list e (log1 @ [Get_memo_list a c]) = [] \<and>
         memo_list = concat pages \<and> log2 = log1 @ [Get_memo_list a c]))
   \<and> (\<forall>r. fetch_loop e a ''0'' [] log = Some (r, log2) \<longrightarrow>
         (\<exists>rest. log2 = log @ Get_memo_list a ''0'' # rest))
   \<and> (\<forall>pages c log1.
         after_pages e (getenv e ''FLOMO_TOKEN'') ''0'' log pages = Some (c, log1) \<and>
         get_memo_list e (log1 @ [Get_memo_list (getenv e ''FLOMO_TOKEN'') c]) = [] \<longrightarrow>
         sync_to_notion e log =
           Some (reconcile e (concat pages) (log1 @ [Get_memo_list (getenv e ''FLOMO_TOKEN'') c])))"
proof (intro conjI allI impI iffI)
  assume f: "fetch_loop e a ''0'' [] log = Some (Inr memo_list, log2)"
  from fetch_loop_returned [OF f]
  show "\<exists>pages c log1. after_pages e a ''0'' log pages = Some (c, log1) \<and>
         get_memo_list e (log1 @ [Get_memo_list a c]) = [] \<and>
         memo_list = concat pages \<and> log2 = log1 @ [Get_memo_list a c]"
    by auto
next
  assume "\<exists>pages c log1. after_pages e a ''0'' log pages = Some (c, log1) \<and>
         get_memo_list e (log1 @ [Get_memo_list a c]) = [] \<and>
         memo_list = concat pages \<and> log2 = log1 @ [Get_memo_list a c]"
  then obtain pages c log1 where
    a: "after_pages e a ''0'' log pages = Some (c, log1)" and
    b: "get_memo_list e (log1 @ [Get_memo_list a c]) = []" and
    c: "memo_list = concat pages" "log2 = log1 @ [Get_memo_list a c]"
    by blast
  from fetch_loop_pages [OF a b, of "[]"] c
  show "fetch_loop e a ''0'' [] log = Some (Inr memo_list, log2)"
    by simp
next
  fix r assume f: "fetch_loop e a ''0'' [] log = Some (r, log2)"
  from fetch_loop_returned [OF f] obtain ps c' log' where
    "after_pages e a ''0'' log ps = Some (c', log')" "log2 = log' @ [Get_memo_list a c']"
    by auto
  then show "\<exists>rest. log2 = log @ Get_memo_list a ''0'' # rest"
    using after_pages_first by blast
next
  fix pages c log1
  assume "after_pages e (getenv e ''FLOMO_TOKEN'') ''0'' log pages = Some (c, log1) \<and>
         get_memo_list e (log1 @ [Get_memo_list (getenv e ''FLOMO_TOKEN'') c]) = []"
  then have "fetch_loop e (getenv e ''FLOMO_TOKEN'') ''0'' [] log =
      Some (Inr (concat pages), log1 @ [Get_memo_list (getenv e ''FLOMO_TOKEN'') c])"
    using fetch_loop_pages [of e "getenv e ''FLOMO_TOKEN''" "''0''" log pages c log1 "[]"] by simp
  then show "sync_to_notion e log =
           Some (reconcile e (concat pages) (log1 @ [Get_memo_list (getenv e ''FLOMO_TOKEN'') c]))"
    by (simp add: sync_to_notion_def)
qed

theorem pagination_loop_witness:
  "after_pages (sim_env [memo_a] False) None ''0'' [] [[memo_a]]
      = Some (''1704067200'', [Get_memo_list None ''0''])
   \<and> get_memo_list (sim_env [memo_a] False)
        ([Get_memo_list None ''0''] @ [Get_memo_list None ''1704067200'']) = []
   \<and> fetch_loop (sim_env [memo_a] False) None ''0'' [] []
      = Some (Inr [memo_a], [Get_memo_list None ''0'', Get_memo_list None ''1704067200''])"
proof -
  let ?e = "sim_env [memo_a] False"
  have a: "after_pages ?e None ''0'' [] [[memo_a]] = Some (''1704067200'', [Get_memo_list None ''0''])"
    using sim_cursor_memo_a [of "[memo_a]" False "[]"] by (simp add: sim_fields)
  have b: "get_memo_list ?e ([Get_memo_list None ''0''] @ [Get_memo_list None ''1704067200'']) = []"
    by (simp add: sim_fields)
  have "\<exists>pages c log1. after_pages ?e None ''0'' [] pages = Some (c, log1) \<and>
         get_memo_list ?e (log1 @ [Get_memo_list None c]) = [] \<and>
         [memo_a] = concat pages \<and>
         [Get_memo_list None ''0'', Get_memo_list None ''1704067200''] = log1 @ [Get_memo_list None c]"
    using a b by (intro exI [of _ "[[memo_a]]"] exI [of _ "''1704067200''"] exI [of _ "[Get_memo_list None ''0'']"]) simp
  with pagination_loop [of ?e None "[]" "[memo_a]" "[Get_memo_list None ''0'', Get_memo_list None ''1704067200'']"]
  have "fetch_loop ?e None ''0'' [] [] = Some (Inr [memo_a], [Get_memo_list None ''0'', Get_memo_list None ''1704067200''])"
    by blast
  with a b show ?thesis by simp
qed

text \<open>
  Claim C8. When, after any number of well-formed pages, the source answers with a
  non-empty page whose last memo has a text under \<open>updated_at\<close> that does not parse,
  the run ends with ValueError. The request that got this page is the last event of the
  log: no further page is requested, the destination is not queried, nothing is
  written.
\<close>

theorem malformed_timestamp_fatal:
  assumes "after_pages e (getenv e ''FLOMO_TOKEN'') ''0'' log pages = Some (c, log1)"
    and "get_memo_list e (log1 @ [Get_memo_list (getenv e ''FLOMO_TOKEN'') c]) = page"
    and "page \<noteq> []"
    and "map_of (last page) ''updated_at'' = Some (PStr s)"
    and "mktime_strptime e s = None"
  shows "sync_to_notion e log =
           Some (Inl ValueError, log1 @ [Get_memo_list (getenv e ''FLOMO_TOKEN'') c])"
proof -
  have "next_cursor e page = Inl ValueError"
    using assms(4,5) by (simp add: next_cursor_def)
  with assms(1,2,3) have "fetch_loop e (getenv e ''FLOMO_TOKEN'') ''0'' [] log =
      Some (Inl ValueError, log1 @ [Get_memo_list (getenv e ''FLOMO_TOKEN'') c])"
    using fetch_loop_pages_error [of e "getenv e ''FLOMO_TOKEN''" "''0''" log pages c log1 ValueError "[]"]
    by simp
  then show ?thesis
    by (simp add: sync_to_notion_def)
qed

theorem malformed_timestamp_fatal_witness:
  "sync_to_notion (sim_env [memo_a, memo_bad] False) [] = Some (Inl ValueError, [Get_memo_list None ''0''])"
proof -
  let ?e = "sim_env [memo_a, memo_bad] False"
  have a: "after_pages ?e (getenv ?e ''FLOMO_TOKEN'') ''0'' [] [] = Some (''0'', [])"
    by simp
  have b: "get_memo_list ?e ([] @ [Get_memo_list (getenv ?e ''FLOMO_TOKEN'') ''0'']) = [memo_a, memo_bad]"
    by (simp add: sim_fields)
  have c: "[memo_a, memo_bad] \<noteq> []" by simp
  have d: "map_of (last [memo_a, memo_bad]) ''updated_at'' = Some (PStr ''yesterday'')"
    by (simp add: memo_bad_def)
  have f: "mktime_strptime ?e ''yesterday'' = None"
    by (simp add: sim_fields)
  from malformed_timestamp_fatal [OF a b c d f] show ?thesis
    by (simp add: sim_fields)
qed

text \<open>
  Claim C6. With full-update mode on, the loop body runs \<open>update_memo\<close> on a memo whose
  slug the index holds, whatever the freshness test answers; the result is never the
  one of the skip branch (no error and an unchanged log), and in a run that completes
  the property update of every such memo of the list is in the log.
\<close>

theorem full_update_never_skips:
  assumes "dict_get memo ''slug'' = PStr s" and "slug_map s = Some pid"
  shows "sync_memo e True interval_day slug_map memo log = update_memo e memo pid log
       \<and> sync_memo e True interval_day slug_map memo log \<noteq> (Inr (), log)
       \<and> (\<forall>memos u log'. memo \<in> set memos \<and>
             sync_memos e True interval_day slug_map memos log = (Inr u, log') \<longrightarrow>
             (\<exists>content_text. Pages_update pid (update_properties e memo content_text)
                \<in> set (drop (length log) log')))"
proof (intro conjI allI impI)
  show u: "sync_memo e True interval_day slug_map memo log = update_memo e memo pid log"
    using assms by (rule sync_memo_full_update)
  show "sync_memo e True interval_day slug_map memo log \<noteq> (Inr (), log)"
    unfolding u by (rule update_memo_not_skip)
next
  fix memos u log'
  assume "memo \<in> set memos \<and> sync_memos e True interval_day slug_map memos log = (Inr u, log')"
  then show "\<exists>content_text. Pages_update pid (update_properties e memo content_text)
                \<in> set (drop (length log) log')"
    using sync_memos_full_update [where m = slug_map and s = s, OF _ _ assms] by blast
qed

theorem full_update_never_skips_witness:
  "dict_get memo_a ''slug'' = PStr ''a''
   \<and> \<not> is_within_n_days (sim_env [] False) (dict_get_default memo_a ''updated_at'' (PStr [])) 7
   \<and> sync_memo (sim_env [] False) True 7 [''a'' \<mapsto> PInt 0] memo_a []
      = (Inr (), [Pages_update (PInt 0) (update_properties (sim_env [] False) memo_a ''hi''),
                  Clear_page_content (PInt 0), Upload_single_file_content ''hi'' (PInt 0)])"
proof -
  have m: "[''a'' \<mapsto> PInt 0] ''a'' = Some (PInt 0)" by simp
  from full_update_never_skips [where slug_map = "[''a'' \<mapsto> PInt 0]" and s = "''a''"
      and e = "sim_env [] False" and interval_day = 7 and log = "[]", OF memo_a_slug m]
  show ?thesis
    by (simp add: memo_a_slug sim_fields sim_update [OF sim_normalize_memo_a])
qed

lemma no_slug_created_under:
  "m [] = None \<Longrightarrow>
     length (filter (\<lambda>memo. map_of memo ''slug'' = None) memos)
       \<le> length (created_under m (PStr []) memos)"
  by (induction memos)
     (auto simp: created_under_def slug_property_def dict_get_default_def indexed_def dict_get_def)

lemma fetch_loop_creates:
  assumes "fetch_loop e a c acc log = Some (r, log1)"
  shows "creates_for v log1 = creates_for v log"
proof -
  obtain gs where "log1 = log @ gs" "write_events gs = []"
    using fetch_loop_log [OF assms] by blast
  then show ?thesis
    by (simp add: creates_for_append creates_for_no_writes)
qed

lemma run_no_slug:
  assumes a: "map_of memo ''slug'' = None"
    and f: "fetch_loop e (getenv e ''FLOMO_TOKEN'') ''0'' [] log = Some (Inr memos, log1)"
    and r: "sync_to_notion e log = Some (Inr u, log2)"
  shows "(memo \<in> set memos \<longrightarrow>
           (\<exists>content_text cov.
              Pages_create (PDict [(''database_id'', page_id e), (''type'', PStr ''database_id'')])
                icon_url cov (insert_properties e memo content_text) \<in> set (drop (length log) log2)))
         \<and> creates_for (PStr []) log + length (filter (\<lambda>memo. map_of memo ''slug'' = None) memos)
             \<le> creates_for (PStr []) log2"
proof
  from f r have rec: "reconcile e memos log1 = (Inr u, log2)"
    by (simp add: sync_to_notion_def)
  obtain gs where g: "log1 = log @ gs"
    using fetch_loop_log [OF f] by blast
  show "memo \<in> set memos \<longrightarrow>
           (\<exists>content_text cov.
              Pages_create (PDict [(''database_id'', page_id e), (''type'', PStr ''database_id'')])
                icon_url cov (insert_properties e memo content_text) \<in> set (drop (length log) log2))"
  proof
    assume mem: "memo \<in> set memos"
    from rec have "sync_memos e (parse_bool_env e ''FULL_UPDATE'' False)
        (parse_int_env e ''UPDATE_INTERVAL_DAY'' 7) (run_index e log1) memos
        (log1 @ [Query_all (page_id e)]) = (Inr u, log2)"
      by (simp add: reconcile_run_index)
    from sync_memos_no_slug [OF this mem a] obtain content_text cov where
      "Pages_create (PDict [(''database_id'', page_id e), (''type'', PStr ''database_id'')])
         icon_url cov (insert_properties e memo content_text)
       \<in> set (drop (length (log1 @ [Query_all (page_id e)])) log2)"
      by blast
    moreover have "set (drop (length (log1 @ [Query_all (page_id e)])) log2) \<subseteq> set (drop (length log) log2)"
      using g by (intro set_drop_subset_set_drop) simp
    ultimately show "\<exists>content_text cov.
              Pages_create (PDict [(''database_id'', page_id e), (''type'', PStr ''database_id'')])
                icon_url cov (insert_properties e memo content_text) \<in> set (drop (length log) log2)"
      by blast
  qed
  have "creates_for (PStr []) log2 =
          creates_for (PStr []) log1 + length (created_under (run_index e log1) (PStr []) memos)"
    using rec by (rule reconcile_creates_returned)
  then show "creates_for (PStr []) log + length (filter (\<lambda>memo. map_of memo ''slug'' = None) memos)
             \<le> creates_for (PStr []) log2"
    using fetch_loop_creates [OF f, of "PStr []"]
      no_slug_created_under [where m = "run_index e log1" and memos = memos, OF run_index_no_empty] by simp
qed

lemma sim_cursor_no_slug:
  "cursor_after (sim_env page fresh) (ms @ [memo_no_slug]) = Some ''1704067200''"
  by (simp add: cursor_after_def memo_no_slug_def dict_get_def sim_fields str_of_epoch)

lemma sim_fetch_no_slug:
  "fetch_loop (sim_env [memo_no_slug] fresh) None ''0'' [] log =
     Some (Inr [memo_no_slug], log @ [Get_memo_list None ''0'', Get_memo_list None ''1704067200''])"
  using sim_cursor_no_slug [of "[memo_no_slug]" fresh "[]"]
  by (intro sim_fetch) simp_all

lemma memo_no_slug_get: "dict_get memo_no_slug ''slug'' = PNone"
  by (simp add: memo_no_slug_def dict_get_def)

lemma memo_no_slug_property: "slug_property memo_no_slug = PStr []"
  by (simp add: memo_no_slug_def slug_property_def dict_get_default_def)

lemma sim_no_slug_first_run:
  "sync_to_notion (sim_env [memo_no_slug] False) [] = Some (Inr (), no_slug_run_log)"
proof -
  have f: "fetch_loop (sim_env [memo_no_slug] False) None ''0'' [] [] =
      Some (Inr [memo_no_slug], [Get_memo_list None ''0'', Get_memo_list None ''1704067200''])"
    using sim_fetch_no_slug [of False "[]"] by simp
  show ?thesis
    by (simp add: sync_to_notion_def sim_fields f reconcile_def Let_def sim_config
        sync_memo_def memo_no_slug_get sim_insert [OF sim_normalize_memo_no_slug] no_slug_run_log_def)
qed

lemma sim_no_slug_second_run:
  "sync_to_notion (sim_env [memo_no_slug] False) no_slug_run_log =
     Some (Inr (), no_slug_run_log @
       [Get_memo_list None ''0'', Get_memo_list None ''1704067200'', Query_all (PStr ''db''),
        Pages_create sim_parent icon_url ''cover.png''
          (insert_properties (sim_env [memo_no_slug] False) memo_no_slug ''hi''),
        Upload_single_file_content ''hi'' (PInt 1)])"
proof -
  have f: "fetch_loop (sim_env [memo_no_slug] False) None ''0'' [] no_slug_run_log =
      Some (Inr [memo_no_slug], no_slug_run_log @ [Get_memo_list None ''0'', Get_memo_list None ''1704067200''])"
    by (rule sim_fetch_no_slug)
  have i: "run_index (sim_env [memo_no_slug] False)
             (no_slug_run_log @ [Get_memo_list None ''0'', Get_memo_list None ''1704067200'']) = Map.empty"
    by (simp add: run_index_def sim_fields no_slug_run_log_def sim_slug_insert memo_no_slug_property)
  have n: "length (sim_records 0 (no_slug_run_log @
              [Get_memo_list None ''0'', Get_memo_list None ''1704067200'', Query_all (PStr ''db'')])) = Suc 0"
    by (simp add: no_slug_run_log_def)
  have q: "sync_memos (sim_env [memo_no_slug] False) False 7 Map.empty [memo_no_slug] log =
     (Inr (), log @ [Pages_create sim_parent icon_url ''cover.png''
          (insert_properties (sim_env [memo_no_slug] False) memo_no_slug ''hi''),
        Upload_single_file_content ''hi'' (PInt (int (length (sim_records 0 log))))])" for log
    by (simp add: sync_memo_def memo_no_slug_get sim_insert [OF sim_normalize_memo_no_slug])
  show ?thesis
    by (simp add: sync_to_notion_def f reconcile_run_index i sim_config q n sim_fields del: sync_memos.simps)
qed

text \<open>
  Claim C10. For a memo without the key \<open>slug\<close> the loop body runs \<open>insert_memo\<close>,
  whatever the index, the mode and the log; the slug property of the record it creates
  is the empty string, and when the body completes the log has one more create under
  the empty slug. So in every loop and in every run of \<open>sync_to_notion\<close> that completes
  and whose memo list holds the memo, the create of the memo is among the events of the
  run, and the run adds at least as many creates under the empty slug as its list has
  memos without a slug; this holds from every starting log, so in every run the memo
  appears in.
\<close>

theorem absent_slug_always_created:
  assumes "map_of memo ''slug'' = None"
  shows "sync_memo e full_update interval_day slug_map memo log = insert_memo e memo log
       \<and> (\<forall>content_text. map_of (insert_properties e memo content_text) ''slug''
             = Some (get_rich_text (PStr [])))
       \<and> (\<forall>u log'. sync_memo e full_update interval_day slug_map memo log = (Inr u, log') \<longrightarrow>
             creates_for (PStr []) log' = Suc (creates_for (PStr []) log))
       \<and> (\<forall>memos u log'. memo \<in> set memos \<and>
             sync_memos e full_update interval_day slug_map memos log = (Inr u, log') \<longrightarrow>
             (\<exists>content_text cov.
                Pages_create (PDict [(''database_id'', page_id e), (''type'', PStr ''database_id'')])
                  icon_url cov (insert_properties e memo content_text)
                \<in> set (drop (length log) log')))
       \<and> (\<forall>memos log1 u log2.
             fetch_loop e (getenv e ''FLOMO_TOKEN'') ''0'' [] log = Some (Inr memos, log1) \<and>
             sync_to_notion e log = Some (Inr u, log2) \<longrightarrow>
             (memo \<in> set memos \<longrightarrow>
                (\<exists>content_text cov.
                   Pages_create (PDict [(''database_id'', page_id e), (''type'', PStr ''database_id'')])
                     icon_url cov (insert_properties e memo content_text)
                   \<in> set (drop (length log) log2)))
             \<and> creates_for (PStr []) log
                  + length (filter (\<lambda>memo. map_of memo ''slug'' = None) memos)
                 \<le> creates_for (PStr []) log2)"
proof (intro conjI allI impI)
  show i: "sync_memo e full_update interval_day slug_map memo log = insert_memo e memo log"
    using assms by (rule sync_memo_no_slug)
  have p: "slug_property memo = PStr []"
    using assms by (simp add: slug_property_def dict_get_default_def)
  show "map_of (insert_properties e memo content_text) ''slug'' = Some (get_rich_text (PStr []))"
    for content_text
    by (simp add: insert_properties_slug p)
  show "creates_for (PStr []) log' = Suc (creates_for (PStr []) log)"
    if "sync_memo e full_update interval_day slug_map memo log = (Inr u, log')" for u log'
  proof -
    from that have "insert_memo e memo log = (Inr u, log')"
      by (simp add: i)
    from insert_memo_creates_returned [OF this, of "PStr []"] show ?thesis
      by (simp add: p)
  qed
  show "\<exists>content_text cov.
                Pages_create (PDict [(''database_id'', page_id e), (''type'', PStr ''database_id'')])
                  icon_url cov (insert_properties e memo content_text)
                \<in> set (drop (length log) log')"
    if "memo \<in> set memos \<and>
             sync_memos e full_update interval_day slug_map memos log = (Inr u, log')" for memos u log'
    using that sync_memos_no_slug [OF _ _ assms] by blast
next
  fix memos log1 u log2
  assume h: "fetch_loop e (getenv e ''FLOMO_TOKEN'') ''0'' [] log = Some (Inr memos, log1) \<and>
             sync_to_notion e log = Some (Inr u, log2)"
  then have r: "(memo \<in> set memos \<longrightarrow>
           (\<exists>content_text cov.
              Pages_create (PDict [(''database_id'', page_id e), (''type'', PStr ''database_id'')])
                icon_url cov (insert_properties e memo content_text) \<in> set (drop (length log) log2)))
         \<and> creates_for (PStr []) log + length (filter (\<lambda>memo. map_of memo ''slug'' = None) memos)
             \<le> creates_for (PStr []) log2"
    using run_no_slug [OF assms, of e log memos log1 u log2] by blast
  {
    assume "memo \<in> set memos"
    with r show "\<exists>content_text cov.
                   Pages_create (PDict [(''database_id'', page_id e), (''type'', PStr ''database_id'')])
                     icon_url cov (insert_properties e memo content_text)
                   \<in> set (drop (length log) log2)"
      by blast
  }
  from r show "creates_for (PStr []) log
                  + length (filter (\<lambda>memo. map_of memo ''slug'' = None) memos)
                 \<le> creates_for (PStr []) log2"
    by blast
qed

theorem absent_slug_always_created_witness:
  "map_of memo_no_slug ''slug'' = None
   \<and> sync_to_notion (sim_env [memo_no_slug] False) [] = Some (Inr (), no_slug_run_log)
   \<and> 1 \<le> creates_for (PStr []) no_slug_run_log
   \<and> sync_to_notion (sim_env [memo_no_slug] False) no_slug_run_log =
       Some (Inr (), no_slug_run_log @
         [Get_memo_list None ''0'', Get_memo_list None ''1704067200'', Query_all (PStr ''db''),
          Pages_create sim_parent icon_url ''cover.png''
            (insert_properties (sim_env [memo_no_slug] False) memo_no_slug ''hi''),
          Upload_single_file_content ''hi'' (PInt 1)])
   \<and> map_of (insert_properties (sim_env [memo_no_slug] False) memo_no_slug ''hi'') ''slug''
      = Some (get_rich_text (PStr []))"
proof -
  let ?e = "sim_env [memo_no_slug] False"
  have a: "map_of memo_no_slug ''slug'' = None"
    by (simp add: memo_no_slug_def)
  have f: "fetch_loop ?e (getenv ?e ''FLOMO_TOKEN'') ''0'' [] [] =
      Some (Inr [memo_no_slug], [Get_memo_list None ''0'', Get_memo_list None ''1704067200''])"
    using sim_fetch_no_slug [of False "[]"] by (simp add: sim_fields)
  note t = absent_slug_always_created [OF a, of ?e False 7 Map.empty "[]"]
  from t f sim_no_slug_first_run
  have "creates_for (PStr []) [] + length (filter (\<lambda>memo. map_of memo ''slug'' = None) [memo_no_slug])
          \<le> creates_for (PStr []) no_slug_run_log"
    by blast
  then have "1 \<le> creates_for (PStr []) no_slug_run_log"
    using a by (simp add: creates_for_def)
  moreover from t have "map_of (insert_properties ?e memo_no_slug ''hi'') ''slug''
      = Some (get_rich_text (PStr []))"
    by blast
  ultimately show ?thesis
    using a sim_no_slug_first_run sim_no_slug_second_run by simp
qed

end
